theory Spec2Isabelle
  imports Main
begin

section \<open>Go strings\<close>

text \<open>
  A Go \<open>string\<close> is a sequence of bytes, here a \<open>char list\<close>. Lengths, indices and
  columns count bytes, as \<open>len\<close>, slicing and \<open>token.Position.Column\<close> do.
  Every separator that the program passes to \<open>strings.Split\<close>, \<open>strings.Index\<close>,
  \<open>strings.SplitN\<close> and to the one-character uses of \<open>strings.Contains\<close> is a single
  ASCII character, so these take a \<open>char\<close>.
\<close>

fun Split :: "string \<Rightarrow> char \<Rightarrow> string list" where
  "Split [] sep = [[]]"
| "Split (c # cs) sep =
     (if c = sep then [] # Split cs sep
      else (case Split cs sep of [] \<Rightarrow> [[c]] | p # ps \<Rightarrow> (c # p) # ps))"

fun Join :: "string list \<Rightarrow> string \<Rightarrow> string" where
  "Join [] sep = []"
| "Join [p] sep = p"
| "Join (p # q # ps) sep = p @ sep @ Join (q # ps) sep"

text \<open>\<open>strings.Index(s, c)\<close>: the index of the first \<open>c\<close>, or \<open>-1\<close>.\<close>

fun Index :: "string \<Rightarrow> char \<Rightarrow> int" where
  "Index [] c = - 1"
| "Index (x # xs) c = (if x = c then 0 else (let i = Index xs c in if i = - 1 then - 1 else i + 1))"

text \<open>\<open>s[lo:hi]\<close>, \<open>s[:hi]\<close> and \<open>s[lo:]\<close> where the source has checked the bounds.\<close>

definition slice :: "string \<Rightarrow> int \<Rightarrow> int \<Rightarrow> string" where
  "slice s lo hi = take (nat (hi - lo)) (drop (nat lo) s)"

definition sliceTo :: "string \<Rightarrow> int \<Rightarrow> string" where
  "sliceTo s hi = take (nat hi) s"

definition sliceFrom :: "string \<Rightarrow> int \<Rightarrow> string" where
  "sliceFrom s lo = drop (nat lo) s"

text \<open>
  Slicing where the source checks nothing: Go panics when the bound is negative or
  beyond the length. \<open>None\<close> is the panic.
\<close>

definition sliceToChecked :: "'a list \<Rightarrow> int \<Rightarrow> 'a list option" where
  "sliceToChecked s hi = (if 0 \<le> hi \<and> hi \<le> int (length s) then Some (take (nat hi) s) else None)"

definition sliceFromChecked :: "'a list \<Rightarrow> int \<Rightarrow> 'a list option" where
  "sliceFromChecked s lo = (if 0 \<le> lo \<and> lo \<le> int (length s) then Some (drop (nat lo) s) else None)"

definition indexChecked :: "'a list \<Rightarrow> int \<Rightarrow> 'a option" where
  "indexChecked xs i = (if 0 \<le> i \<and> i < int (length xs) then Some (xs ! nat i) else None)"

text \<open>\<open>strings.SplitN(s, sep, 2)\<close>: cut at the first separator, if there is one.\<close>

definition SplitN2 :: "string \<Rightarrow> char \<Rightarrow> string list" where
  "SplitN2 s sep =
     (if sep \<in> set s then [takeWhile (\<lambda>c. c \<noteq> sep) s, drop 1 (dropWhile (\<lambda>c. c \<noteq> sep) s)]
      else [s])"

fun HasPrefix :: "string \<Rightarrow> string \<Rightarrow> bool" where
  "HasPrefix s [] = True"
| "HasPrefix [] (p # ps) = False"
| "HasPrefix (c # cs) (p # ps) = (c = p \<and> HasPrefix cs ps)"

definition HasSuffix :: "string \<Rightarrow> string \<Rightarrow> bool" where
  "HasSuffix s suf = HasPrefix (rev s) (rev suf)"

definition TrimPrefix :: "string \<Rightarrow> string \<Rightarrow> string" where
  "TrimPrefix s p = (if HasPrefix s p then drop (length p) s else s)"

text \<open>\<open>strings.Contains(s, sub)\<close> for a substring of any length.\<close>

fun Contains :: "string \<Rightarrow> string \<Rightarrow> bool" where
  "Contains [] sub = (sub = [])"
| "Contains (c # cs) sub = (HasPrefix (c # cs) sub \<or> Contains cs sub)"

text \<open>\<open>strings.Trim(s, cutset)\<close> for a cutset of ASCII characters.\<close>

definition Trim :: "string \<Rightarrow> string \<Rightarrow> string" where
  "Trim s cutset =
     rev (dropWhile (\<lambda>c. c \<in> set cutset) (rev (dropWhile (\<lambda>c. c \<in> set cutset) s)))"

text \<open>
  \<open>strings.TrimSpace\<close> removes leading and trailing white space as \<open>unicode.IsSpace\<close>
  defines it: the six ASCII characters, and the code points U+0085, U+00A0, U+1680,
  U+2000 to U+200A, U+2028, U+2029, U+202F, U+205F and U+3000, which are two or three
  bytes of UTF-8 each.
\<close>

definition asciiSpace :: "char \<Rightarrow> bool" where
  "asciiSpace c \<longleftrightarrow> c \<in> set [CHR 0x09, CHR 0x0A, CHR 0x0B, CHR 0x0C, CHR 0x0D, CHR 0x20]"

definition space2 :: "char \<Rightarrow> char \<Rightarrow> bool" where
  "space2 a b \<longleftrightarrow> a = CHR 0xC2 \<and> (b = CHR 0x85 \<or> b = CHR 0xA0)"

definition space3 :: "char \<Rightarrow> char \<Rightarrow> char \<Rightarrow> bool" where
  "space3 a b c \<longleftrightarrow>
     (a = CHR 0xE1 \<and> b = CHR 0x9A \<and> c = CHR 0x80) \<or>
     (a = CHR 0xE2 \<and> b = CHR 0x80 \<and>
        ((128 \<le> (of_char c :: nat) \<and> (of_char c :: nat) \<le> 138) \<or>
         c = CHR 0xA8 \<or> c = CHR 0xA9 \<or> c = CHR 0xAF)) \<or>
     (a = CHR 0xE2 \<and> b = CHR 0x81 \<and> c = CHR 0x9F) \<or>
     (a = CHR 0xE3 \<and> b = CHR 0x80 \<and> c = CHR 0x80)"

fun trimLeftSpace :: "string \<Rightarrow> string" where
  "trimLeftSpace [] = []"
| "trimLeftSpace [a] = (if asciiSpace a then [] else [a])"
| "trimLeftSpace [a, b] =
     (if asciiSpace a then trimLeftSpace [b] else if space2 a b then [] else [a, b])"
| "trimLeftSpace (a # b # c # s) =
     (if asciiSpace a then trimLeftSpace (b # c # s)
      else if space2 a b then trimLeftSpace (c # s)
      else if space3 a b c then trimLeftSpace s
      else a # b # c # s)"

text \<open>The same from the end, on the reversed string (the bytes of a rune come last first).\<close>

fun trimLeftSpaceRev :: "string \<Rightarrow> string" where
  "trimLeftSpaceRev [] = []"
| "trimLeftSpaceRev [a] = (if asciiSpace a then [] else [a])"
| "trimLeftSpaceRev [a, b] =
     (if asciiSpace a then trimLeftSpaceRev [b] else if space2 b a then [] else [a, b])"
| "trimLeftSpaceRev (a # b # c # s) =
     (if asciiSpace a then trimLeftSpaceRev (b # c # s)
      else if space2 b a then trimLeftSpaceRev (c # s)
      else if space3 c b a then trimLeftSpaceRev s
      else a # b # c # s)"

definition TrimSpace :: "string \<Rightarrow> string" where
  "TrimSpace s = rev (trimLeftSpaceRev (rev (trimLeftSpace s)))"

text \<open>
  \<open>strings.ToLower\<close>, \<open>strings.ToUpper\<close> and \<open>strings.Title\<close> on ASCII letters. Bytes
  from \<open>0x80\<close> on are left as they are: Go maps the letters of other scripts too, which
  needs the Unicode tables; level names and the identifiers of the examples are ASCII.
\<close>

definition isUpper :: "char \<Rightarrow> bool" where
  "isUpper c \<longleftrightarrow> 65 \<le> (of_char c :: nat) \<and> (of_char c :: nat) \<le> 90"

definition isLower :: "char \<Rightarrow> bool" where
  "isLower c \<longleftrightarrow> 97 \<le> (of_char c :: nat) \<and> (of_char c :: nat) \<le> 122"

definition isDigit :: "char \<Rightarrow> bool" where
  "isDigit c \<longleftrightarrow> 48 \<le> (of_char c :: nat) \<and> (of_char c :: nat) \<le> 57"

definition lowerChar :: "char \<Rightarrow> char" where
  "lowerChar c = (if isUpper c then char_of ((of_char c :: nat) + 32) else c)"

definition upperChar :: "char \<Rightarrow> char" where
  "upperChar c = (if isLower c then char_of ((of_char c :: nat) - 32) else c)"

definition ToLower :: "string \<Rightarrow> string" where
  "ToLower s = map lowerChar s"

definition ToUpper :: "string \<Rightarrow> string" where
  "ToUpper s = map upperChar s"

text \<open>
  \<open>strings.Title\<close> upper-cases the letter that follows a separator; letters, digits
  and the underscore are no separators, every other ASCII character is one. A byte
  from \<open>0x80\<close> on is taken as part of a letter.
\<close>

definition isSeparator :: "char \<Rightarrow> bool" where
  "isSeparator c \<longleftrightarrow>
     \<not> (isUpper c \<or> isLower c \<or> isDigit c \<or> c = CHR ''_'') \<and> (of_char c :: nat) < 128"

fun titleFrom :: "char \<Rightarrow> string \<Rightarrow> string" where
  "titleFrom prev [] = []"
| "titleFrom prev (c # cs) = (if isSeparator prev then upperChar c else c) # titleFrom c cs"

definition Title :: "string \<Rightarrow> string" where
  "Title s = titleFrom (CHR '' '') s"

text \<open>
  \<open>strings.Fields\<close> splits around runs of white space (\<open>unicode.IsSpace\<close> again) and
  returns the pieces between them. \<open>spaceLen\<close> is the number of bytes of the white-space
  rune at the head of a string, \<open>0\<close> when there is none; the first argument of
  \<open>fieldsFrom\<close> counts the bytes of such a rune still to skip, the second is the piece
  read so far.
\<close>

fun spaceLen :: "string \<Rightarrow> nat" where
  "spaceLen [] = 0"
| "spaceLen [a] = (if asciiSpace a then 1 else 0)"
| "spaceLen [a, b] = (if asciiSpace a then 1 else if space2 a b then 2 else 0)"
| "spaceLen (a # b # c # s) =
     (if asciiSpace a then 1 else if space2 a b then 2 else if space3 a b c then 3 else 0)"

fun fieldsFrom :: "nat \<Rightarrow> string \<Rightarrow> string \<Rightarrow> string list" where
  "fieldsFrom k cur [] = (if cur = [] then [] else [cur])"
| "fieldsFrom (Suc k) cur (c # cs) = fieldsFrom k cur cs"
| "fieldsFrom 0 cur (c # cs) =
     (let n = spaceLen (c # cs) in
      if n = 0 then fieldsFrom 0 (cur @ [c]) cs
      else (if cur = [] then [] else [cur]) @ fieldsFrom (n - 1) [] cs)"

definition Fields :: "string \<Rightarrow> string list" where
  "Fields s = fieldsFrom 0 [] s"

text \<open>\<open>strconv.Itoa\<close>, which is also what \<open>%d\<close> prints.\<close>

fun natToStr :: "nat \<Rightarrow> string" where
  "natToStr n =
     (if n < 10 then [''0123456789'' ! n]
      else natToStr (n div 10) @ [''0123456789'' ! (n mod 10)])"

declare natToStr.simps [simp del]

definition Itoa :: "int \<Rightarrow> string" where
  "Itoa i = (if i < 0 then ''-'' @ natToStr (nat (- i)) else natToStr (nat i))"

text \<open>\<open>%04d\<close>: the sign, then zeros up to a width of four.\<close>

definition Itoa04 :: "int \<Rightarrow> string" where
  "Itoa04 i =
     (if i < 0 then ''-'' @ replicate (3 - length (natToStr (nat (- i)))) (CHR ''0'') @ natToStr (nat (- i))
      else replicate (4 - length (natToStr (nat i))) (CHR ''0'') @ natToStr (nat i))"

text \<open>
  \<open>strconv.Atoi\<close> with its error dropped, as \<open>loadUpdates\<close> calls it: an optional sign
  and one or more decimal digits give their value, cut to the range of a 64-bit \<open>int\<close>;
  anything else gives \<open>0\<close>.
\<close>

definition isNumeral :: "string \<Rightarrow> bool" where
  "isNumeral s \<longleftrightarrow>
     (let ds = (if s \<noteq> [] \<and> (hd s = CHR ''+'' \<or> hd s = CHR ''-'') then tl s else s)
      in ds \<noteq> [] \<and> list_all isDigit ds)"

definition digitsVal :: "string \<Rightarrow> int" where
  "digitsVal ds = foldl (\<lambda>n c. n * 10 + (int (of_char c) - 48)) 0 ds"

definition Atoi :: "string \<Rightarrow> int" where
  "Atoi s =
     (if \<not> isNumeral s then 0
      else if hd s = CHR ''-'' then max (- (2 ^ 63)) (- digitsVal (tl s))
      else if hd s = CHR ''+'' then min (2 ^ 63 - 1) (digitsVal (tl s))
      else min (2 ^ 63 - 1) (digitsVal s))"

text \<open>\<open>filepath.Base\<close> with \<open>/\<close> as the separator.\<close>

definition Base :: "string \<Rightarrow> string" where
  "Base path =
     (if path = [] then ''.''
      else
        let p = rev (dropWhile (\<lambda>c. c = CHR ''/'') (rev path));
            e = rev (takeWhile (\<lambda>c. c \<noteq> CHR ''/'') (rev p))
        in if e = [] then ''/'' else e)"

section \<open>The syntax tree\<close>

text \<open>
  The expressions of \<open>go/ast\<close> that the program tells apart; \<open>OtherExpr\<close> carries the
  name that \<open>%T\<close> prints for any other node. A \<open>call_node\<close> is an \<open>*ast.CallExpr\<close>
  with what the program reads of it: the callee, the arguments, the positions
  \<open>fset.Position(call.Pos())\<close> and \<open>fset.Position(call.End())\<close> as (line, column), and
  the text that \<open>printer.Fprint\<close> gives for it. \<open>ast.Inspect\<close> visits the nodes of a
  file depth-first, parents before children; the closures of the program return
  \<open>true\<close> on every node and act on call expressions only, so a parsed file is its
  package name and its call expressions in that order.
\<close>

text \<open>The kinds of \<open>token.INT\<close> to \<open>token.STRING\<close> of a basic literal.\<close>

datatype token = tokINT | tokFLOAT | tokIMAG | tokCHAR | tokSTRING

datatype expr =
    BasicLit token string
  | Ident string
  | SelectorExpr expr string
  | CallExpr expr "expr list"
  | IndexExpr expr expr
  | UnaryExpr string expr
  | BinaryExpr expr string expr
  | OtherExpr string

type_synonym position = "int \<times> int"

record call_node =
  Fun :: expr
  Args :: "expr list"
  Pos :: position
  End :: position
  Printed :: string

record parsed_file =
  PackageName :: string
  Calls :: "call_node list"

section \<open>The transformer: data\<close>

record LogUpdate =
  ID :: string
  FilePath :: string
  Line :: int
  Column :: int
  OriginalCall :: string
  LogLevel :: string
  MessageTemplate :: string
  ArgumentDetails :: string
  NewCall :: string
  NewMessage :: string
  StructuredFields :: string

record FieldMapping =
  Key :: string
  Expression :: string
  Type :: string

record TemplateConfig =
  Style :: string
  LoggerVar :: string
  Template :: string

text \<open>
  What the program calls of the Go library and of the operating system, and what the
  library computes from data that is not modelled here:
  \<^item> \<open>jsonFields\<close>: \<open>json.Unmarshal\<close> of an override into a \<open>[]FieldMapping\<close>
    (\<open>None\<close>: it returned an error);
  \<^item> \<open>parseTemplate\<close>: the error of \<open>template.New("log").Parse\<close> on the template
    string (\<open>None\<close>: it parses);
  \<^item> \<open>executeTemplate\<close>: \<open>Execute\<close> of the parsed template on the logger, level,
    message and field list (\<open>Inl\<close>: it returned an error);
  \<^item> \<open>readConfig\<close>: \<open>os.ReadFile\<close> and \<open>json.Unmarshal\<close> of the configuration file;
  \<^item> \<open>readCSV\<close>: \<open>os.Open\<close> and \<open>csv.Reader.ReadAll\<close> of the catalog;
  \<^item> \<open>canWrite\<close>: whether \<open>os.WriteFile\<close> succeeds on a path;
  \<^item> \<open>parseGo\<close>: \<open>parser.ParseFile\<close> on a path and the content of the file;
  \<^item> \<open>matchPattern\<close>: \<open>regexp.Compile\<close> of the operator's pattern (\<open>Inl\<close>: it does not
    compile), giving what \<open>MatchString\<close> answers.
\<close>

record env =
  parseGo :: "string \<Rightarrow> string \<Rightarrow> string + parsed_file"
  matchPattern :: "string \<Rightarrow> string + (string \<Rightarrow> bool)"
  jsonFields :: "string \<Rightarrow> FieldMapping list option"
  parseTemplate :: "string \<Rightarrow> string option"
  executeTemplate :: "string \<Rightarrow> string \<Rightarrow> string \<Rightarrow> string \<Rightarrow> FieldMapping list \<Rightarrow> string + string"
  readConfig :: "string \<Rightarrow> string + TemplateConfig"
  readCSV :: "string \<Rightarrow> string + string list list"
  canWrite :: "string \<Rightarrow> bool"

section \<open>The call generator\<close>

definition levelLower :: "string \<Rightarrow> string" where
  "levelLower level = (let levelFunc = ToLower level in if levelFunc = ''warning'' then ''warn'' else levelFunc)"

definition levelTitle :: "string \<Rightarrow> string" where
  "levelTitle level = (let levelFunc = Title (ToLower level) in if levelFunc = ''Warning'' then ''Warn'' else levelFunc)"

definition getZapFieldFunc :: "string \<Rightarrow> string" where
  "getZapFieldFunc typ =
     (if typ = ''string'' then ''String'' else if typ = ''int'' then ''Int''
      else if typ = ''bool'' then ''Bool'' else if typ = ''error'' then ''Error'' else ''Any'')"

definition getZerologFieldFunc :: "string \<Rightarrow> string" where
  "getZerologFieldFunc typ =
     (if typ = ''string'' then ''Str'' else if typ = ''int'' then ''Int''
      else if typ = ''bool'' then ''Bool'' else if typ = ''error'' then ''Err'' else ''Interface'')"

definition generateSlogCall :: "string \<Rightarrow> string \<Rightarrow> string \<Rightarrow> FieldMapping list \<Rightarrow> string" where
  \<open>generateSlogCall loggerVar level message flds =
     Join ((loggerVar @ ''.'' @ levelLower level @ ''("'' @ message @ ''"'') #
           map (\<lambda>field. ''slog.Any("'' @ Key field @ ''", '' @ Expression field @ '')'') flds)
          '', '' @ '')''\<close>

definition generateZapCall :: "string \<Rightarrow> string \<Rightarrow> string \<Rightarrow> FieldMapping list \<Rightarrow> string" where
  \<open>generateZapCall loggerVar level message flds =
     Join ((loggerVar @ ''.'' @ levelTitle level @ ''("'' @ message @ ''"'') #
           map (\<lambda>field. ''zap.'' @ getZapFieldFunc (Type field) @ ''("'' @ Key field @ ''", '' @
                         Expression field @ '')'') flds)
          '', '' @ '')''\<close>

definition generateZerologCall :: "string \<Rightarrow> string \<Rightarrow> string \<Rightarrow> FieldMapping list \<Rightarrow> string" where
  \<open>generateZerologCall loggerVar level message flds =
     Join ([loggerVar @ ''.'' @ levelLower level @ ''()''] @
           map (\<lambda>field. getZerologFieldFunc (Type field) @ ''("'' @ Key field @ ''", '' @
                         Expression field @ '')'') flds @
           [''Msg("'' @ message @ ''")''])
          ''.''\<close>

definition generateLogrusCall :: "string \<Rightarrow> string \<Rightarrow> string \<Rightarrow> FieldMapping list \<Rightarrow> string" where
  \<open>generateLogrusCall loggerVar level message flds =
     (if length flds = 0 then loggerVar @ ''.'' @ levelTitle level @ ''("'' @ message @ ''")''
      else loggerVar @ ''.WithFields('' @ loggerVar @ ''.Fields{'' @
           Join (map (\<lambda>field. ''"'' @ Key field @ ''": '' @ Expression field) flds) '', '' @
           ''}).'' @ levelTitle level @ ''("'' @ message @ ''")'')\<close>

definition generateCustomCall ::
  "env \<Rightarrow> string \<Rightarrow> string \<Rightarrow> string \<Rightarrow> string \<Rightarrow> FieldMapping list \<Rightarrow> string + string" where
  "generateCustomCall env tmplStr loggerVar level message flds =
     (case parseTemplate env tmplStr of
        Some e \<Rightarrow> Inl e
      | None \<Rightarrow> executeTemplate env tmplStr loggerVar level message flds)"

section \<open>The field resolver\<close>

text \<open>One segment of \<open>parseSimpleFields\<close>: the body of its loop, \<open>None\<close> for \<open>continue\<close>.\<close>

definition parseSimplePart :: "string \<Rightarrow> FieldMapping option" where
  "parseSimplePart part0 =
     (let part = TrimSpace part0 in
      if part = [] then None
      else if CHR ''='' \<in> set part then
        (let kv = SplitN2 part (CHR ''='') in
         Some \<lparr>Key = TrimSpace (kv ! 0), Expression = TrimSpace (kv ! 1), Type = ''unknown''\<rparr>)
      else if CHR '':'' \<in> set part then
        (let kv = SplitN2 part (CHR '':'') in
         Some \<lparr>Key = TrimSpace (kv ! 0), Expression = TrimSpace (kv ! 1), Type = ''unknown''\<rparr>)
      else Some \<lparr>Key = part, Expression = part, Type = ''unknown''\<rparr>)"

definition parseSimpleFields :: "string \<Rightarrow> FieldMapping list" where
  "parseSimpleFields fieldsStr =
     (let parts = Split fieldsStr (CHR '';'');
          parts = (if length parts = 1 then Split fieldsStr (CHR '','') else parts)
      in List.map_filter parseSimplePart parts)"

text \<open>One segment of \<open>autoGenerateFieldsFromArguments\<close>, \<open>None\<close> for \<open>continue\<close>.\<close>

definition autoGeneratePart :: "string \<Rightarrow> FieldMapping option" where
  "autoGeneratePart part0 =
     (let part = TrimSpace part0 in
      if part = [] then None
      else
        let openParen = Index part (CHR ''('') in
        if openParen = - 1 then None
        else
          let key = TrimSpace (sliceTo part openParen);
              closeParen = Index part (CHR '')'') in
          if closeParen = - 1 \<or> closeParen \<le> openParen then None
          else
            let typ = TrimSpace (slice part (openParen + 1) closeParen);
                equals = Index part (CHR ''='') in
            if equals = - 1 \<or> equals \<le> closeParen then None
            else
              let exprPart = TrimSpace (sliceFrom part (equals + 1));
                  openBracket = Index exprPart (CHR ''['');
                  expr = (if openBracket \<noteq> - 1 then TrimSpace (sliceTo exprPart openBracket)
                          else exprPart)
              in Some \<lparr>Key = key, Expression = expr, Type = typ\<rparr>)"

definition autoGenerateFieldsFromArguments :: "string \<Rightarrow> FieldMapping list" where
  "autoGenerateFieldsFromArguments argumentDetails =
     List.map_filter autoGeneratePart (Split argumentDetails (CHR '';''))"

text \<open>The first block of \<open>generateStructuredLogCall\<close>: the fields of an entry.\<close>

definition resolveFields :: "env \<Rightarrow> LogUpdate \<Rightarrow> bool \<Rightarrow> FieldMapping list" where
  "resolveFields env update autoMap =
     (if StructuredFields update \<noteq> [] then
        (case jsonFields env (StructuredFields update) of
           Some flds \<Rightarrow> flds
         | None \<Rightarrow> parseSimpleFields (StructuredFields update))
      else if autoMap \<and> ArgumentDetails update \<noteq> [] then
        autoGenerateFieldsFromArguments (ArgumentDetails update)
      else [])"

definition resolveMessage :: "LogUpdate \<Rightarrow> string" where
  \<open>resolveMessage update =
     Trim (if NewMessage update = [] then MessageTemplate update else NewMessage update) ''"'`''\<close>

definition generateStructuredLogCall :: "env \<Rightarrow> LogUpdate \<Rightarrow> TemplateConfig \<Rightarrow> bool \<Rightarrow> string + string" where
  "generateStructuredLogCall env update config autoMap =
     (let flds = resolveFields env update autoMap;
          message = resolveMessage update
      in if Style config = ''slog'' then
           Inr (generateSlogCall (LoggerVar config) (LogLevel update) message flds)
         else if Style config = ''zap'' then
           Inr (generateZapCall (LoggerVar config) (LogLevel update) message flds)
         else if Style config = ''zerolog'' then
           Inr (generateZerologCall (LoggerVar config) (LogLevel update) message flds)
         else if Style config = ''logrus'' then
           Inr (generateLogrusCall (LoggerVar config) (LogLevel update) message flds)
         else if Style config = ''custom'' then
           generateCustomCall env (Template config) (LoggerVar config) (LogLevel update) message flds
         else Inl (''unknown style: '' @ Style config))"

section \<open>The collector\<close>

record Argument =
  argIndex :: int
  argExpression :: string
  argVarName :: string
  argType :: string
  argFormatVerb :: string
  argSuggestedKey :: string

record LogEntry =
  entID :: string
  entFilePath :: string
  entLine :: int
  entColumn :: int
  entPackage :: string
  entOriginalCall :: string
  entLogLevel :: string
  entMessageTemplate :: string
  entArguments :: "Argument list"
  entNewCall :: string
  entNewMessage :: string
  entStructuredFields :: string
  entNotes :: string

fun formatExpr :: "expr \<Rightarrow> string" where
  "formatExpr (BasicLit k v) = v"
| "formatExpr (Ident name) = name"
| "formatExpr (SelectorExpr x sel) = formatExpr x @ ''.'' @ sel"
| "formatExpr (CallExpr f as) = formatExpr f @ ''()''"
| "formatExpr (IndexExpr x i) = formatExpr x @ ''[...]''"
| "formatExpr (UnaryExpr opr x) = opr @ formatExpr x"
| "formatExpr (BinaryExpr x opr y) = formatExpr x @ '' '' @ opr @ '' '' @ formatExpr y"
| "formatExpr (OtherExpr t) = ''<'' @ t @ ''>''"

fun getFunctionName :: "expr \<Rightarrow> string" where
  "getFunctionName (SelectorExpr (Ident name) sel) = name @ ''.'' @ sel"
| "getFunctionName (SelectorExpr x sel) = formatExpr (SelectorExpr x sel)"
| "getFunctionName (Ident name) = name"
| "getFunctionName other = []"

definition levels :: "string list" where
  "levels = [''trace'', ''debug'', ''info'', ''warn'', ''warning'', ''error'', ''fatal'', ''panic'']"

definition extractLogLevel :: "string \<Rightarrow> string" where
  "extractLogLevel funcName =
     (let funcLower = ToLower funcName in
      case filter (\<lambda>level. Contains funcLower level) levels of
        level # rest \<Rightarrow> ToUpper (take 1 level) @ drop 1 level
      | [] \<Rightarrow> if Contains funcLower ''print'' then ''Info'' else ''Unknown'')"

text \<open>
  \<open>extractFormatVerbs\<close> finds all matches of the regular expression
  \<^verbatim>\<open>%[-+# 0]*[\d]*\.?[\d]*[vTtbcdoqxXUeEfFgGsp]\<close>. A match begins at a \<open>%\<close> and ends at
  the first character after it that is no flag, digit or dot, which must be a verb
  letter; the flags, the digits, at most one dot and the digits again come in this
  order, so the longest run of each decides whether there is a match, and there is at
  most one match from a given \<open>%\<close>. \<open>matchVerb\<close> gives the text matched after the \<open>%\<close>.
  \<open>FindAllString\<close> returns the matches from left to right, each search starting where
  the last match ended; the first argument of \<open>findVerbs\<close> counts the characters of
  the last match still to pass.
\<close>

definition isFlag :: "char \<Rightarrow> bool" where
  "isFlag c \<longleftrightarrow> c \<in> set ''-+# 0''"

definition isVerb :: "char \<Rightarrow> bool" where
  "isVerb c \<longleftrightarrow> c \<in> set ''vTtbcdoqxXUeEfFgGsp''"

definition matchVerb :: "string \<Rightarrow> string option" where
  "matchVerb s =
     (let flags = takeWhile isFlag s; r1 = dropWhile isFlag s;
          width = takeWhile isDigit r1; r2 = dropWhile isDigit r1;
          dot = (if r2 \<noteq> [] \<and> hd r2 = CHR ''.'' then ''.'' else []);
          r3 = (if r2 \<noteq> [] \<and> hd r2 = CHR ''.'' then tl r2 else r2);
          prec = takeWhile isDigit r3; r4 = dropWhile isDigit r3
      in if r4 \<noteq> [] \<and> isVerb (hd r4) then Some (flags @ width @ dot @ prec @ [hd r4]) else None)"

fun findVerbs :: "nat \<Rightarrow> string \<Rightarrow> string list" where
  "findVerbs k [] = []"
| "findVerbs (Suc k) (c # cs) = findVerbs k cs"
| "findVerbs 0 (c # cs) =
     (if c = CHR ''%'' then
        (case matchVerb cs of
           Some m \<Rightarrow> (c # m) # findVerbs (length m) cs
         | None \<Rightarrow> findVerbs 0 cs)
      else findVerbs 0 cs)"

definition extractFormatVerbs :: "string \<Rightarrow> string list" where
  \<open>extractFormatVerbs formatStr = findVerbs 0 (Trim formatStr ''"'`'')\<close>

definition extractVarName :: "string \<Rightarrow> string" where
  "extractVarName e = (let parts = Split e (CHR ''.'') in if length parts > 0 then last parts else e)"

fun inferType :: "expr \<Rightarrow> string" where
  "inferType (BasicLit k v) =
     (if k = tokINT then ''int'' else if k = tokFLOAT then ''float''
      else if k = tokSTRING then ''string'' else if k = tokCHAR then ''rune'' else ''unknown'')"
| "inferType (Ident name) =
     (if name = ''true'' \<or> name = ''false'' then ''bool''
      else if name = ''nil'' then ''nil''
      else if HasPrefix name ''is'' \<or> HasPrefix name ''has'' then ''bool''
      else if name = ''err'' \<or> HasSuffix name ''Error'' then ''error''
      else ''unknown'')"
| "inferType (CallExpr f as) = ''func_result''"
| "inferType other = ''unknown''"

text \<open>
  \<open>toSnakeCase\<close> ranges over the runes of the string with their byte index; the bytes
  of a rune that is not ASCII are all from \<open>0x80\<close> on, none is a capital letter and all
  are written back as they are.
\<close>

definition toSnakeCase :: "string \<Rightarrow> string" where
  "toSnakeCase s =
     (case s of
        [] \<Rightarrow> []
      | c # cs \<Rightarrow> ToLower (c # concat (map (\<lambda>r. if isUpper r then [CHR ''_'', r] else [r]) cs)))"

definition generateFieldKey :: "string \<Rightarrow> string \<Rightarrow> string \<Rightarrow> string" where
  "generateFieldKey varName formatVerb inferredType =
     (let key = toSnakeCase varName;
          key = TrimPrefix key ''p_'';
          key = TrimPrefix key ''m_''
      in if key = ''err'' \<or> key = ''error'' then ''error''
         else if key = ''msg'' \<or> key = ''message'' then ''message''
         else if key = ''id'' then ''id''
         else if key = ''name'' then ''name''
         else if key = ''status'' \<or> key = ''state'' then ''status''
         else key)"

text \<open>
  The loop of \<open>extractLogDetails\<close> over \<open>call.Args[1:]\<close>; \<open>i\<close> is the loop variable,
  which starts at \<open>1\<close>.
\<close>

fun processArgs :: "string list \<Rightarrow> int \<Rightarrow> expr list \<Rightarrow> Argument list" where
  "processArgs formatVerbs i [] = []"
| "processArgs formatVerbs i (arg # rest) =
     (let e = formatExpr arg;
          varName = extractVarName e;
          inferredType = inferType arg;
          formatVerb = (if i - 1 < int (length formatVerbs) then formatVerbs ! nat (i - 1) else []);
          suggestedKey = generateFieldKey varName formatVerb inferredType
      in \<lparr>argIndex = i - 1, argExpression = e, argVarName = varName, argType = inferredType,
          argFormatVerb = formatVerb, argSuggestedKey = suggestedKey\<rparr>
         # processArgs formatVerbs (i + 1) rest)"

fun extractLogDetails :: "expr list \<Rightarrow> string \<times> Argument list" where
  "extractLogDetails [] = ([], [])"
| "extractLogDetails (BasicLit tokSTRING v # rest) = (v, processArgs (extractFormatVerbs v) 1 rest)"
| "extractLogDetails (firstArg # rest) = (formatExpr firstArg, processArgs [] 1 rest)"

text \<open>
  The closure of \<open>parseFile\<close> on one call expression; the state is the entries so far
  and the counter \<open>entryID\<close>, which all files of a run share.
\<close>

definition parseCall ::
  "string \<Rightarrow> string \<Rightarrow> (string \<Rightarrow> bool) \<Rightarrow> LogEntry list \<times> int \<Rightarrow> call_node \<Rightarrow> LogEntry list \<times> int" where
  "parseCall filePath packageName logPattern st call =
     (let funcName = getFunctionName (Fun call) in
      if funcName = [] \<or> \<not> logPattern funcName then st
      else
        let logLevel = extractLogLevel funcName;
            (messageTemplate, arguments) = extractLogDetails (Args call);
            entry = \<lparr>entID = ''LOG-'' @ Itoa04 (snd st), entFilePath = filePath,
                     entLine = fst (Pos call), entColumn = snd (Pos call),
                     entPackage = packageName, entOriginalCall = funcName,
                     entLogLevel = logLevel, entMessageTemplate = messageTemplate,
                     entArguments = arguments, entNewCall = [], entNewMessage = [],
                     entStructuredFields = [], entNotes = []\<rparr>
        in (fst st @ [entry], snd st + 1))"

definition parseFile ::
  "string \<Rightarrow> parsed_file \<Rightarrow> (string \<Rightarrow> bool) \<Rightarrow> int \<Rightarrow> LogEntry list \<times> int" where
  "parseFile filePath node logPattern entryID =
     foldl (parseCall filePath (PackageName node) logPattern) ([], entryID) (Calls node)"

definition formatArgumentDetail :: "Argument \<Rightarrow> string" where
  "formatArgumentDetail arg =
     (let detail = argSuggestedKey arg @ ''('' @ argType arg @ '')='' @ argExpression arg
      in if argFormatVerb arg \<noteq> [] then detail @ ''['' @ argFormatVerb arg @ '']'' else detail)"

definition formatArgumentDetails :: "Argument list \<Rightarrow> string" where
  "formatArgumentDetails args =
     (if length args = 0 then [] else Join (map formatArgumentDetail args) ''; '')"

definition header :: "string list" where
  "header = [''ID'', ''FilePath'', ''Line'', ''Column'', ''Package'', ''OriginalCall'', ''LogLevel'',
             ''MessageTemplate'', ''ArgumentCount'', ''ArgumentDetails'', ''NewCall'', ''NewMessage'',
             ''StructuredFields'', ''Notes'']"

definition entryRow :: "LogEntry \<Rightarrow> string list" where
  "entryRow entry =
     [entID entry, entFilePath entry, Itoa (entLine entry), Itoa (entColumn entry),
      entPackage entry, entOriginalCall entry, entLogLevel entry, entMessageTemplate entry,
      Itoa (int (length (entArguments entry))), formatArgumentDetails (entArguments entry),
      entNewCall entry, entNewMessage entry, entStructuredFields entry, entNotes entry]"

text \<open>
  A candidate is plain when its key, type and expression are made of visible ASCII
  characters, the key and the type without parentheses, \<open>=\<close> and \<open>;\<close>, the expression
  without \<open>[\<close> and \<open>;\<close>, and its verb has no \<open>;\<close>: such as \<open>user_id\<close>, \<open>unknown\<close>,
  \<open>user.Name\<close> and \<open>%s\<close>.
\<close>

definition graphic :: "char \<Rightarrow> bool" where
  "graphic c \<longleftrightarrow> 33 \<le> (of_char c :: nat) \<and> (of_char c :: nat) \<le> 126"

definition plainArgument :: "Argument \<Rightarrow> bool" where
  "plainArgument a \<longleftrightarrow>
     list_all (\<lambda>c. graphic c \<and> c \<notin> set ''()=;'') (argSuggestedKey a) \<and>
     list_all (\<lambda>c. graphic c \<and> c \<notin> set ''()=;'') (argType a) \<and>
     list_all (\<lambda>c. graphic c \<and> c \<notin> set ''[;'') (argExpression a) \<and>
     list_all (\<lambda>c. c \<noteq> CHR '';'') (argFormatVerb a)"

text \<open>The records that \<open>exportToCSV\<close> hands to the CSV writer.\<close>

definition exportToCSV :: "LogEntry list \<Rightarrow> string list list" where
  "exportToCSV entries = header # map entryRow entries"

section \<open>The files and the output\<close>

text \<open>
  The state of a run: the content of each file that exists, and the lines printed on
  the standard output and on the standard error, oldest first. A run ends with no
  error, with the error it returns to \<open>main\<close>, or in a panic of the Go runtime.
\<close>

record world =
  files :: "string \<rightharpoonup> string"
  stdout :: "string list"
  stderr :: "string list"

datatype error = Err string | Panic

text \<open>
  \<open>Collect\<close> on the Go files that \<open>filepath.Walk\<close> finds, in the order it finds them:
  a file that does not parse is skipped with a warning.
\<close>

fun collectFiles ::
  "env \<Rightarrow> (string \<Rightarrow> bool) \<Rightarrow> string list \<Rightarrow> LogEntry list \<times> int \<Rightarrow> world \<Rightarrow> (LogEntry list \<times> int) \<times> world" where
  "collectFiles env logPattern [] st w = (st, w)"
| "collectFiles env logPattern (path # paths) st w =
     (case (case files w path of None \<Rightarrow> Inl ''no such file'' | Some c \<Rightarrow> parseGo env path c) of
        Inl e \<Rightarrow>
          collectFiles env logPattern paths st
            (w\<lparr>stderr := stderr w @ [''Warning: failed to parse '' @ path @ '': '' @ e]\<rparr>)
      | Inr node \<Rightarrow>
          (let (fileEntries, entryID) = parseFile path node logPattern (snd st)
           in collectFiles env logPattern paths (fst st @ fileEntries, entryID) w))"

text \<open>\<open>Collect\<close> up to the records it exports (\<open>Inl\<close>: the pattern does not compile).\<close>

definition Collect :: "env \<Rightarrow> string list \<Rightarrow> string \<Rightarrow> world \<Rightarrow> (string + string list list) \<times> world" where
  "Collect env paths pattern w =
     (case matchPattern env pattern of
        Inl e \<Rightarrow> (Inl (''invalid pattern: '' @ e), w)
      | Inr logPattern \<Rightarrow>
          (let (st, w') = collectFiles env logPattern paths ([], 1) w
           in (Inr (exportToCSV (fst st)), w')))"

section \<open>The source patcher\<close>

text \<open>
  \<open>replaceCallExpr\<close> on the content: \<open>None\<close> is a panic of the Go runtime (an index or
  a slice bound out of range), which the source does not guard against.
\<close>

definition replaceCallExpr :: "call_node \<Rightarrow> string \<Rightarrow> string \<Rightarrow> string option" where
  "replaceCallExpr call newCode content =
     (let startP = Pos call; endP = End call;
          lines = Split content (CHR 0x0A)
      in if fst startP > int (length lines) \<or> fst endP > int (length lines) then Some content
         else if fst startP = fst endP then
           (case indexChecked lines (fst startP - 1) of
              None \<Rightarrow> None
            | Some line \<Rightarrow>
               (case sliceToChecked line (snd startP - 1) of
                  None \<Rightarrow> None
                | Some beforeS \<Rightarrow>
                   (case sliceFromChecked line (snd endP - 1) of
                      None \<Rightarrow> None
                    | Some afterS \<Rightarrow>
                        Some (Join (lines[nat (fst startP - 1) := beforeS @ newCode @ afterS]) [CHR 0x0A]))))
         else
           (case indexChecked lines (fst startP - 1) of
              None \<Rightarrow> None
            | Some firstLine \<Rightarrow>
               (case indexChecked lines (fst endP - 1) of
                  None \<Rightarrow> None
                | Some lastLine \<Rightarrow>
                   (case sliceToChecked firstLine (snd startP - 1) of
                      None \<Rightarrow> None
                    | Some beforeS \<Rightarrow>
                       (case sliceFromChecked lastLine (snd endP - 1) of
                          None \<Rightarrow> None
                        | Some afterS \<Rightarrow>
                           (case sliceFromChecked lines (fst endP) of
                              None \<Rightarrow> None
                            | Some rest \<Rightarrow>
                                Some (Join (take (nat (fst startP - 1)) lines @
                                            [beforeS @ newCode @ afterS] @ rest) [CHR 0x0A])))))))"

text \<open>
  The position that the file set gives to the byte that follows the text \<open>pre\<close> at
  the start of a file: its line is the number of lines of \<open>pre\<close>, its column the
  length of the last of them, plus one.
\<close>

definition positionAfter :: "string \<Rightarrow> position" where
  "positionAfter pre =
     (int (length (Split pre (CHR 0x0A))), int (length (last (Split pre (CHR 0x0A)))) + 1)"

definition truncateCode :: "string \<Rightarrow> int \<Rightarrow> string" where
  "truncateCode code0 maxLen =
     (let code = Join (Fields code0) '' ''
      in if int (length code) \<le> maxLen then code else sliceTo code (maxLen - 3) @ ''...'')"

text \<open>
  The map from \<open>"line:column"\<close> to the update; a later row with the same position
  replaces an earlier one. The key is the pair: \<open>%d:%d\<close> prints two pairs alike only
  when they are equal.
\<close>

definition buildUpdateMap :: "LogUpdate list \<Rightarrow> (int \<times> int) \<rightharpoonup> LogUpdate" where
  "buildUpdateMap updates = foldl (\<lambda>m update. m((Line update, Column update) \<mapsto> update)) Map.empty updates"

text \<open>
  The variables that the closure in \<open>transformFile\<close> shares with it, the warnings it
  prints, and whether the runtime has panicked, which ends the traversal.
\<close>

record inspect_state =
  content :: string
  modifications :: "string list"
  modified :: bool
  warnings :: "string list"
  panicked :: bool

definition modificationText :: "string \<Rightarrow> call_node \<Rightarrow> string \<Rightarrow> string" where
  "modificationText filePath call newCode =
     Base filePath @ '':'' @ Itoa (fst (Pos call)) @ '':'' @ Itoa (snd (Pos call)) @
     [CHR 0x0A] @ ''  Old: '' @ truncateCode (Printed call) 80 @
     [CHR 0x0A] @ ''  New: '' @ truncateCode newCode 80"

definition inspectCall ::
  "env \<Rightarrow> string \<Rightarrow> ((int \<times> int) \<rightharpoonup> LogUpdate) \<Rightarrow> TemplateConfig \<Rightarrow> bool \<Rightarrow> bool \<Rightarrow>
   inspect_state \<Rightarrow> call_node \<Rightarrow> inspect_state" where
  "inspectCall env filePath updateMap config dryRun autoMap st call =
     (if panicked st then st
      else
        case updateMap (Pos call) of
          None \<Rightarrow> st
        | Some update \<Rightarrow>
           (case generateStructuredLogCall env update config autoMap of
              Inl e \<Rightarrow>
                st\<lparr>warnings := warnings st @
                     [''Warning: failed to generate code for '' @ ID update @ '': '' @ e]\<rparr>
            | Inr newCode \<Rightarrow>
               (let st' = st\<lparr>modifications := modifications st @
                               [modificationText filePath call newCode]\<rparr>
                in if \<not> dryRun then
                     (case replaceCallExpr call newCode (content st') of
                        None \<Rightarrow> st'\<lparr>panicked := True\<rparr>
                      | Some c \<Rightarrow> st'\<lparr>content := c, modified := True\<rparr>)
                   else st')))"

text \<open>The traversal \<open>ast.Inspect\<close> of \<open>transformFile\<close> over the call expressions of the file.\<close>

definition inspectCalls ::
  "env \<Rightarrow> string \<Rightarrow> ((int \<times> int) \<rightharpoonup> LogUpdate) \<Rightarrow> TemplateConfig \<Rightarrow> bool \<Rightarrow> bool \<Rightarrow>
   string \<Rightarrow> call_node list \<Rightarrow> inspect_state" where
  "inspectCalls env filePath updateMap config dryRun autoMap content0 calls =
     foldl (inspectCall env filePath updateMap config dryRun autoMap)
       \<lparr>content = content0, modifications = [], modified = False, warnings = [], panicked = False\<rparr>
       calls"

definition transformFile ::
  "env \<Rightarrow> string \<Rightarrow> LogUpdate list \<Rightarrow> TemplateConfig \<Rightarrow> bool \<Rightarrow> bool \<Rightarrow> world \<Rightarrow> error option \<times> world" where
  "transformFile env filePath updates config dryRun autoMap w =
     (case files w filePath of
        None \<Rightarrow> (Some (Err (''open '' @ filePath @ '': no such file or directory'')), w)
      | Some content0 \<Rightarrow>
         (case parseGo env filePath content0 of
            Inl e \<Rightarrow> (Some (Err e), w)
          | Inr node \<Rightarrow>
             (let updateMap = buildUpdateMap updates;
                  st = inspectCalls env filePath updateMap config dryRun autoMap content0 (Calls node);
                  w1 = w\<lparr>stderr := stderr w @ warnings st\<rparr>
              in if panicked st then (Some Panic, w1)
                 else
                   let w2 = w1\<lparr>stdout := stdout w1 @ concat (map (\<lambda>m. [m, []]) (modifications st))\<rparr>
                   in if modified st \<and> \<not> dryRun then
                        (if canWrite env filePath then
                           (None, w2\<lparr>files := (files w2)(filePath \<mapsto> content st),
                                     stdout := stdout w2 @
                                       [''Updated: '' @ filePath @ '' ('' @
                                        Itoa (int (length (modifications st))) @ '' changes)'']\<rparr>)
                         else (Some (Err (''open '' @ filePath @ '': permission denied'')), w2))
                      else if length (modifications st) > 0 \<and> dryRun then
                        (None, w2\<lparr>stdout := stdout w2 @
                                       [''Would update: '' @ filePath @ '' ('' @
                                        Itoa (int (length (modifications st))) @ '' changes)'']\<rparr>)
                      else (None, w2))))"

section \<open>The catalog and the run\<close>

definition loadTemplateConfig :: "env \<Rightarrow> string \<Rightarrow> string + TemplateConfig" where
  "loadTemplateConfig env configFile =
     (if configFile = [] then Inr \<lparr>Style = ''slog'', LoggerVar = ''log'', Template = []\<rparr>
      else readConfig env configFile)"

text \<open>
  The loop of \<open>loadUpdates\<close> over \<open>records[1:]\<close>, with the loop variable \<open>i\<close>: the
  warnings it prints and the updates it returns. The thirteen cells it reads exist
  when the guard has passed.
\<close>

fun loadRows :: "int \<Rightarrow> string list list \<Rightarrow> string list \<times> LogUpdate list" where
  "loadRows i [] = ([], [])"
| "loadRows i (record # rest) =
     (let (ws, us) = loadRows (i + 1) rest in
      if length record < 13 then
        ((''Warning: skipping malformed row '' @ Itoa (i + 1)) # ws, us)
      else
        (ws, \<lparr>ID = record ! 0, FilePath = record ! 1, Line = Atoi (record ! 2),
               Column = Atoi (record ! 3), OriginalCall = record ! 5, LogLevel = record ! 6,
               MessageTemplate = record ! 7, ArgumentDetails = record ! 9, NewCall = record ! 10,
               NewMessage = record ! 11, StructuredFields = record ! 12\<rparr> # us))"

definition loadUpdates :: "env \<Rightarrow> string \<Rightarrow> world \<Rightarrow> (string + LogUpdate list) \<times> world" where
  "loadUpdates env csvFile w =
     (case readCSV env csvFile of
        Inl e \<Rightarrow> (Inl e, w)
      | Inr records \<Rightarrow>
          if length records < 2 then (Inl ''CSV file is empty or has no data rows'', w)
          else
            let (ws, us) = loadRows 1 (tl records)
            in (Inr us, w\<lparr>stderr := stderr w @ ws\<rparr>))"

text \<open>The test of \<open>Transform\<close> for a row to pass over.\<close>

definition skipUpdate :: "LogUpdate \<Rightarrow> bool" where
  "skipUpdate update \<longleftrightarrow>
     (NewMessage update = [] \<and> NewCall update = []) \<or>
     (NewMessage update = MessageTemplate update \<and> NewCall update = OriginalCall update)"

text \<open>
  The map \<open>fileUpdates\<close> as a list of the paths with their updates, in the order the
  paths first appear; \<open>addUpdate\<close> is
  \<open>fileUpdates[update.FilePath] = append(fileUpdates[update.FilePath], update)\<close>.
\<close>

fun addUpdate :: "LogUpdate \<Rightarrow> (string \<times> LogUpdate list) list \<Rightarrow> (string \<times> LogUpdate list) list" where
  "addUpdate update [] = [(FilePath update, [update])]"
| "addUpdate update ((path, us) # rest) =
     (if path = FilePath update then (path, us @ [update]) # rest
      else (path, us) # addUpdate update rest)"

definition groupUpdates :: "LogUpdate list \<Rightarrow> (string \<times> LogUpdate list) list" where
  "groupUpdates updates =
     foldl (\<lambda>fileUpdates update. if skipUpdate update then fileUpdates else addUpdate update fileUpdates)
       [] updates"

text \<open>The loop of \<open>Transform\<close> over the files: the first error ends the run.\<close>

fun transformFiles ::
  "env \<Rightarrow> (string \<times> LogUpdate list) list \<Rightarrow> TemplateConfig \<Rightarrow> bool \<Rightarrow> bool \<Rightarrow> world \<Rightarrow> error option \<times> world" where
  "transformFiles env [] config dryRun autoMap w = (None, w)"
| "transformFiles env ((filePath, updates) # rest) config dryRun autoMap w =
     (case transformFile env filePath updates config dryRun autoMap w of
        (Some Panic, w') \<Rightarrow> (Some Panic, w')
      | (Some (Err e), w') \<Rightarrow> (Some (Err (''failed to transform '' @ filePath @ '': '' @ e)), w')
      | (None, w') \<Rightarrow> transformFiles env rest config dryRun autoMap w')"

text \<open>
  \<open>range fileUpdates\<close> visits the files in an order that Go does not fix: \<open>order\<close> is
  that order, as a function of the list of files.
\<close>

definition Transform ::
  "env \<Rightarrow> ((string \<times> LogUpdate list) list \<Rightarrow> (string \<times> LogUpdate list) list) \<Rightarrow>
   string \<Rightarrow> string \<Rightarrow> bool \<Rightarrow> string \<Rightarrow> bool \<Rightarrow> world \<Rightarrow> error option \<times> world" where
  "Transform env order csvFile rootPath dryRun configFile autoMap w =
     (case loadTemplateConfig env configFile of
        Inl e \<Rightarrow> (Some (Err (''failed to load template config: '' @ e)), w)
      | Inr config \<Rightarrow>
         (case loadUpdates env csvFile w of
            (Inl e, w1) \<Rightarrow> (Some (Err (''failed to load updates: '' @ e)), w1)
          | (Inr updates, w1) \<Rightarrow>
             (let fileUpdates = groupUpdates updates
              in if length fileUpdates = 0 then (None, w1\<lparr>stdout := stdout w1 @ [''No updates to apply'']\<rparr>)
                 else transformFiles env (order fileUpdates) config dryRun autoMap w1)))"

section \<open>What a traversal reports\<close>

text \<open>
  For a call expression of the file, the update that the map holds for its position
  and what the generator returns for that update; then the changes and the warnings
  that the calls of a file give rise to, in the order of the traversal.
\<close>

definition generatedFor ::
  "env \<Rightarrow> ((int \<times> int) \<rightharpoonup> LogUpdate) \<Rightarrow> TemplateConfig \<Rightarrow> bool \<Rightarrow> call_node \<Rightarrow>
   (LogUpdate \<times> (string + string)) option" where
  "generatedFor env updateMap config autoMap call =
     (case updateMap (Pos call) of
        None \<Rightarrow> None
      | Some update \<Rightarrow> Some (update, generateStructuredLogCall env update config autoMap))"

definition reportedChanges ::
  "env \<Rightarrow> string \<Rightarrow> ((int \<times> int) \<rightharpoonup> LogUpdate) \<Rightarrow> TemplateConfig \<Rightarrow> bool \<Rightarrow> call_node list \<Rightarrow>
   string list" where
  "reportedChanges env filePath updateMap config autoMap calls =
     List.map_filter
       (\<lambda>call. case generatedFor env updateMap config autoMap call of
                 Some (update, Inr newCode) \<Rightarrow> Some (modificationText filePath call newCode)
               | _ \<Rightarrow> None)
       calls"

definition reportedWarnings ::
  "env \<Rightarrow> ((int \<times> int) \<rightharpoonup> LogUpdate) \<Rightarrow> TemplateConfig \<Rightarrow> bool \<Rightarrow> call_node list \<Rightarrow> string list" where
  "reportedWarnings env updateMap config autoMap calls =
     List.map_filter
       (\<lambda>call. case generatedFor env updateMap config autoMap call of
                 Some (update, Inl e) \<Rightarrow>
                   Some (''Warning: failed to generate code for '' @ ID update @ '': '' @ e)
               | _ \<Rightarrow> None)
       calls"

definition knownStyles :: "string list" where
  "knownStyles = [''slog'', ''zap'', ''zerolog'', ''logrus'', ''custom'']"


text \<open>
  The warnings of a file whose entries all fail to generate with the error \<open>e\<close>: one
  for each call whose position has an update.
\<close>

definition failureWarnings :: "string \<Rightarrow> ((int \<times> int) \<rightharpoonup> LogUpdate) \<Rightarrow> call_node list \<Rightarrow> string list" where
  "failureWarnings e updateMap calls =
     List.map_filter
       (\<lambda>call. case updateMap (Pos call) of
                 None \<Rightarrow> None
               | Some update \<Rightarrow> Some (''Warning: failed to generate code for '' @ ID update @ '': '' @ e))
       calls"

section \<open>What a run reports\<close>

text \<open>
  For the files \<open>fs\<close>: the error of a file that cannot be read or does not parse, and
  the call expressions of a file that does. Then, of the files of a run in the order
  they are visited, those that come before the first file with an error, and the error
  that the run returns for that file.
\<close>

definition fileError :: "env \<Rightarrow> (string \<rightharpoonup> string) \<Rightarrow> string \<Rightarrow> string option" where
  "fileError env fs filePath =
     (case fs filePath of
        None \<Rightarrow> Some (''open '' @ filePath @ '': no such file or directory'')
      | Some c \<Rightarrow> (case parseGo env filePath c of Inl e \<Rightarrow> Some e | Inr node \<Rightarrow> None))"

definition fileCalls :: "env \<Rightarrow> (string \<rightharpoonup> string) \<Rightarrow> string \<Rightarrow> call_node list" where
  "fileCalls env fs filePath =
     (case fs filePath of
        None \<Rightarrow> []
      | Some c \<Rightarrow> (case parseGo env filePath c of Inl e \<Rightarrow> [] | Inr node \<Rightarrow> Calls node))"

fun visited ::
  "env \<Rightarrow> (string \<rightharpoonup> string) \<Rightarrow> (string \<times> LogUpdate list) list \<Rightarrow> (string \<times> LogUpdate list) list" where
  "visited env fs [] = []"
| "visited env fs ((filePath, updates) # rest) =
     (case fileError env fs filePath of
        Some e \<Rightarrow> []
      | None \<Rightarrow> (filePath, updates) # visited env fs rest)"

fun runError :: "env \<Rightarrow> (string \<rightharpoonup> string) \<Rightarrow> (string \<times> LogUpdate list) list \<Rightarrow> error option" where
  "runError env fs [] = None"
| "runError env fs ((filePath, updates) # rest) =
     (case fileError env fs filePath of
        Some e \<Rightarrow> Some (Err (''failed to transform '' @ filePath @ '': '' @ e))
      | None \<Rightarrow> runError env fs rest)"

text \<open>
  What a dry run prints for a file with its updates: on the standard output the changes,
  each followed by an empty line, then the number of changes when there is one; on the
  standard error the warnings.
\<close>

definition filePreview ::
  "env \<Rightarrow> TemplateConfig \<Rightarrow> bool \<Rightarrow> (string \<rightharpoonup> string) \<Rightarrow> string \<times> LogUpdate list \<Rightarrow> string list" where
  "filePreview env config autoMap fs fu =
     (let changes = reportedChanges env (fst fu) (buildUpdateMap (snd fu)) config autoMap
                      (fileCalls env fs (fst fu))
      in concat (map (\<lambda>m. [m, []]) changes) @
         (if changes = [] then []
          else [''Would update: '' @ fst fu @ '' ('' @ Itoa (int (length changes)) @ '' changes)'']))"

definition fileWarnings ::
  "env \<Rightarrow> TemplateConfig \<Rightarrow> bool \<Rightarrow> (string \<rightharpoonup> string) \<Rightarrow> string \<times> LogUpdate list \<Rightarrow> string list" where
  "fileWarnings env config autoMap fs fu =
     reportedWarnings env (buildUpdateMap (snd fu)) config autoMap (fileCalls env fs (fst fu))"


section \<open>What the pattern of the verbs matches\<close>

text \<open>
  The words of the pattern \<^verbatim>\<open>%[-+# 0]*[\d]*\.?[\d]*[vTtbcdoqxXUeEfFgGsp]\<close>: a \<open>%\<close>, flags,
  the digits of a width, at most one dot, the digits of a precision, and a verb.
  Then the matches that \<open>FindAllString\<close> returns for a text: none when no part of the
  text is a word of the pattern; otherwise the leftmost word, followed by the matches
  in the rest of the text after it.
\<close>

definition verbToken :: "string \<Rightarrow> bool" where
  "verbToken t \<longleftrightarrow>
     (\<exists>flags width dot prec v.
        t = CHR ''%'' # flags @ width @ dot @ prec @ [v] \<and>
        list_all isFlag flags \<and> list_all isDigit width \<and> (dot = [] \<or> dot = ''.'') \<and>
        list_all isDigit prec \<and> isVerb v)"

inductive allVerbs :: "string \<Rightarrow> string list \<Rightarrow> bool" where
  no_verb: "(\<forall>a t b. s = a @ t @ b \<longrightarrow> \<not> verbToken t) \<Longrightarrow> allVerbs s []"
| next_verb:
    "verbToken t \<Longrightarrow>
     (\<forall>a' t' b'. a @ t @ b = a' @ t' @ b' \<longrightarrow> verbToken t' \<longrightarrow> length a \<le> length a') \<Longrightarrow>
     allVerbs b ts \<Longrightarrow> allVerbs (a @ t @ b) (t # ts)"

section \<open>A small project\<close>

text \<open>
  One file with two calls on its second line,
  \<^verbatim>\<open>func f() { log.Println("a"); log.Println("b") }\<close>, as the Go parser reads it: the
  first call spans the columns 12 to 28 and the second the columns 30 to 46. The
  pattern is the default of \<open>main.go\<close>, \<^verbatim>\<open>log\.|logrus\.|logger\.\<close>. The catalog is
  what \<open>Collect\<close> exports for the file with \<open>NewMessage\<close> filled in on both rows. No
  override is JSON here.

  There are three configuration files. \<open>bogus.json\<close> names a style that does not exist.
  \<open>custom.json\<close> has a template that reads the first field,
  \<^verbatim>\<open>{{(index .Fields 0).Expression}}\<close>: it parses, and executing it fails for an entry
  with no field, with the error that \<open>text/template\<close> gives. \<open>undefined.json\<close> has a
  template that uses a variable it does not declare, \<^verbatim>\<open>{{$x}}\<close>: \<open>text/template\<close>
  refuses it when it parses it. Every other template is taken to print nothing.

  There are three catalogs. \<open>logs.csv\<close> is the catalog above. In \<open>fields.csv\<close> the
  second row has the override \<open>n=b\<close>, and a third row with the override \<open>k=a\<close> is
  for the first call of a second file \<open>b.go\<close> with the same content. \<open>two.csv\<close> has
  one row more than the catalog above, the first, for a file \<open>missing.go\<close> that does
  not exist.
\<close>

definition demoSource :: string where
  \<open>demoSource =
     ''package p'' @ [CHR 0x0A] @
     ''func f() { log.Println("a"); log.Println("b") }'' @ [CHR 0x0A]\<close>

definition demoCalls :: "call_node list" where
  \<open>demoCalls =
     [\<lparr>Fun = SelectorExpr (Ident ''log'') ''Println'', Args = [BasicLit tokSTRING ''"a"''],
       Pos = (2, 12), End = (2, 28), Printed = ''log.Println("a")''\<rparr>,
      \<lparr>Fun = SelectorExpr (Ident ''log'') ''Println'', Args = [BasicLit tokSTRING ''"b"''],
       Pos = (2, 30), End = (2, 46), Printed = ''log.Println("b")''\<rparr>]\<close>

definition defaultPattern :: "string \<Rightarrow> bool" where
  "defaultPattern name \<longleftrightarrow> Contains name ''log.'' \<or> Contains name ''logrus.'' \<or> Contains name ''logger.''"

definition demoCatalog :: "string list list" where
  \<open>demoCatalog =
     [header,
      [''LOG-0001'', ''a.go'', ''2'', ''12'', ''p'', ''log.Println'', ''Info'', ''"a"'', ''0'', [], [],
       ''first'', [], []],
      [''LOG-0002'', ''a.go'', ''2'', ''30'', ''p'', ''log.Println'', ''Info'', ''"b"'', ''0'', [], [],
       ''second'', [], []]]\<close>

definition customConfig :: TemplateConfig where
  \<open>customConfig =
     \<lparr>Style = ''custom'', LoggerVar = ''log'',
      Template = ''{{.Logger}}.Log("{{.Message}}", {{(index .Fields 0).Expression}})''\<rparr>\<close>

definition undefinedConfig :: TemplateConfig where
  \<open>undefinedConfig =
     \<lparr>Style = ''custom'', LoggerVar = ''log'',
      Template = ''{{.Logger}}.Log("{{.Message}}", {{$x}})''\<rparr>\<close>

definition fieldsCatalog :: "string list list" where
  \<open>fieldsCatalog =
     [demoCatalog ! 0, demoCatalog ! 1, (demoCatalog ! 2)[12 := ''n=b''],
      [''LOG-0003'', ''b.go'', ''2'', ''12'', ''p'', ''log.Println'', ''Info'', ''"a"'', ''0'', [], [],
       ''third'', ''k=a'', []]]\<close>

definition twoCatalog :: "string list list" where
  \<open>twoCatalog =
     [header,
      [''LOG-0001'', ''missing.go'', ''3'', ''2'', ''p'', ''log.Println'', ''Info'', ''"m"'', ''0'', [], [],
       ''gone'', [], []],
      (demoCatalog ! 1)[0 := ''LOG-0002''],
      (demoCatalog ! 2)[0 := ''LOG-0003'']]\<close>

definition noFieldError :: string where
  \<open>noFieldError =
     ''template: log:1:35: executing "log" at <index .Fields 0>: error calling index: reflect: slice index out of range''\<close>

definition undefinedError :: string where
  \<open>undefinedError = ''template: log:1: undefined variable "$x"''\<close>

definition demoEnv :: env where
  \<open>demoEnv =
     \<lparr>parseGo = (\<lambda>path c. if c = demoSource then Inr \<lparr>PackageName = ''p'', Calls = demoCalls\<rparr>
                           else Inl ''expected declaration''),
      matchPattern = (\<lambda>pattern. Inr defaultPattern),
      jsonFields = (\<lambda>s. None),
      parseTemplate = (\<lambda>tmplStr.
         if tmplStr = Template undefinedConfig then Some undefinedError else None),
      executeTemplate = (\<lambda>tmplStr loggerVar level message flds.
         if tmplStr = Template customConfig then
           (if flds = [] then Inl noFieldError
            else Inr (loggerVar @ ''.Log("'' @ message @ ''", '' @ Expression (hd flds) @ '')''))
         else Inr []),
      readConfig = (\<lambda>configFile.
         if configFile = ''bogus.json'' then Inr \<lparr>Style = ''bogus'', LoggerVar = ''log'', Template = []\<rparr>
         else if configFile = ''custom.json'' then Inr customConfig
         else if configFile = ''undefined.json'' then Inr undefinedConfig
         else Inl (''open '' @ configFile @ '': no such file or directory'')),
      readCSV = (\<lambda>csvFile.
         if csvFile = ''logs.csv'' then Inr demoCatalog
         else if csvFile = ''fields.csv'' then Inr fieldsCatalog
         else if csvFile = ''two.csv'' then Inr twoCatalog
         else Inl (''open '' @ csvFile @ '': no such file or directory'')),
      canWrite = (\<lambda>path. True)\<rparr>\<close>

definition demoWorld :: world where
  "demoWorld = \<lparr>files = [''a.go'' \<mapsto> demoSource], stdout = [], stderr = []\<rparr>"




definition demoUpdate :: LogUpdate where
  \<open>demoUpdate =
     \<lparr>ID = ''LOG-0001'', FilePath = ''a.go'', Line = 2, Column = 12, OriginalCall = ''log.Printf'',
      LogLevel = ''Info'', MessageTemplate = ''"user %s: %v"'',
      ArgumentDetails = ''user(unknown)=user[%s]; error(error)=err[%v]'', NewCall = [],
      NewMessage = ''lookup failed'', StructuredFields = []\<rparr>\<close>

text \<open>An environment whose catalog is what \<open>Collect\<close> has just exported, unedited.\<close>

definition scanEnv :: env where
  "scanEnv = demoEnv\<lparr>readCSV := (\<lambda>csvFile. fst (Collect demoEnv [''a.go''] ''log[.]'' demoWorld))\<rparr>"

text \<open>
  The arguments of \<^verbatim>\<open>log.Printf("%5d of %-8.2f: %! %s", n, total, name, extra)\<close>: the
  literal has three verbs, two of them with flags, a width or a precision, and a \<open>%\<close>
  that starts no verb.
\<close>

definition widthLit :: string where
  \<open>widthLit = ''"%5d of %-8.2f: %! %s"''\<close>

definition widthRest :: "expr list" where
  "widthRest = [Ident ''n'', Ident ''total'', Ident ''name'', Ident ''extra'']"

text \<open>
  The call \<^verbatim>\<open>log.Printf("error: %v", err)\<close> after a tab on line 12 of \<open>handler.go\<close>,
  the row that the catalog holds for it once the operator has filled in \<open>NewMessage\<close>,
  and the update that \<open>loadUpdates\<close> reads from that row.
\<close>

definition errCall :: call_node where
  \<open>errCall =
     \<lparr>Fun = SelectorExpr (Ident ''log'') ''Printf'',
      Args = [BasicLit tokSTRING ''"error: %v"'', Ident ''err''],
      Pos = (12, 2), End = (12, 30), Printed = ''log.Printf("error: %v", err)''\<rparr>\<close>

definition errEntry :: LogEntry where
  "errEntry = hd (fst (parseFile ''handler.go'' \<lparr>PackageName = ''main'', Calls = [errCall]\<rparr> defaultPattern 1))"

definition errRow :: "string list" where
  "errRow = (entryRow errEntry)[11 := ''Failed to process request'']"

definition errUpdate :: LogUpdate where
  "errUpdate = hd (snd (loadRows 1 [errRow]))"

definition slogLogger :: TemplateConfig where
  "slogLogger = \<lparr>Style = ''slog'', LoggerVar = ''logger'', Template = []\<rparr>"

text \<open>A row of the catalog whose \<open>Line\<close> cell is no numeral and whose \<open>Column\<close> cell is one.\<close>

definition badRow :: "string list" where
  \<open>badRow =
     [''LOG-0001'', ''a.go'', ''x'', ''7'', ''p'', ''log.Println'', ''Info'', ''"a"'', ''0'', [], [],
      ''first'', [], []]\<close>

text \<open>
  The second line of the small project with the exact span of each call replaced by
  the text generated for it.
\<close>

definition demoExpected :: string where
  \<open>demoExpected =
     ''package p'' @ [CHR 0x0A] @
     ''func f() { log.info("first"); log.info("second") }'' @ [CHR 0x0A]\<close>

text \<open>
  The arguments of \<^verbatim>\<open>log.Printf("item %d of %d", items[i], len(items))\<close> and of
  \<^verbatim>\<open>log.Printf("equal: %v", a == b)\<close>.
\<close>

definition indexArgs :: "expr list" where
  \<open>indexArgs =
     [BasicLit tokSTRING ''"item %d of %d"'', IndexExpr (Ident ''items'') (Ident ''i''),
      CallExpr (Ident ''len'') [Ident ''items'']]\<close>

definition equalArgs :: "expr list" where
  \<open>equalArgs = [BasicLit tokSTRING ''"equal: %v"'', BinaryExpr (Ident ''a'') ''=='' (Ident ''b'')]\<close>

section \<open>Lemmas on strings\<close>

lemma Split_not_Nil: "Split s sep \<noteq> []"
  by (induction s) (auto split: list.splits)

lemma length_Split: "length (Split s sep) = Suc (length (filter (\<lambda>c. c = sep) s))"
proof (induction s)
  case Nil
  then show ?case by simp
next
  case (Cons c cs)
  then show ?case
    using Split_not_Nil [of cs sep] by (cases "Split cs sep") auto
qed


lemma Join_Split: "Join (Split s sep) [sep] = s"
proof (induction s)
  case Nil
  then show ?case by simp
next
  case (Cons c cs)
  show ?case
  proof (cases "Split cs sep")
    case Nil
    then show ?thesis using Split_not_Nil by blast
  next
    case (Cons p ps)
    then show ?thesis using Cons.IH by (cases ps) auto
  qed
qed


section \<open>Lemmas on the traversal and the run\<close>

lemma map_filter_Cons:
  "List.map_filter f (x # xs) = (case f x of None \<Rightarrow> List.map_filter f xs | Some y \<Rightarrow> y # List.map_filter f xs)"
  by (simp add: List.map_filter_def split: option.splits)

lemma map_filter_Nil: "List.map_filter f [] = []"
  by (simp add: List.map_filter_def)

lemma dry_fold:
  "\<not> panicked st \<Longrightarrow>
   foldl (inspectCall env p m cfg True am) st cs =
     st\<lparr>modifications := modifications st @ reportedChanges env p m cfg am cs,
        warnings := warnings st @ reportedWarnings env m cfg am cs\<rparr>"
proof (induction cs arbitrary: st)
  case Nil
  then show ?case by (simp add: reportedChanges_def reportedWarnings_def map_filter_Nil)
next
  case (Cons c cs)
  have np: "\<not> panicked (inspectCall env p m cfg True am st c)"
    using Cons.prems by (simp add: inspectCall_def Let_def split: option.splits sum.splits)
  show ?case
    using Cons.prems
    by (simp add: Cons.IH [OF np])
       (simp add: inspectCall_def Let_def reportedChanges_def reportedWarnings_def
          generatedFor_def map_filter_Cons split: option.splits sum.splits)
qed

lemma dry_inspectCalls:
  "inspectCalls env p m cfg True am c0 cs =
     \<lparr>content = c0, modifications = reportedChanges env p m cfg am cs, modified = False,
      warnings = reportedWarnings env m cfg am cs, panicked = False\<rparr>"
  by (simp add: inspectCalls_def dry_fold)

lemma nogen_fold:
  assumes "\<And>u. \<exists>e. generateStructuredLogCall env u cfg am = Inl e"
  shows "content (foldl (inspectCall env p m cfg dry am) st cs) = content st \<and>
         modified (foldl (inspectCall env p m cfg dry am) st cs) = modified st \<and>
         panicked (foldl (inspectCall env p m cfg dry am) st cs) = panicked st \<and>
         modifications (foldl (inspectCall env p m cfg dry am) st cs) = modifications st"
proof (induction cs arbitrary: st)
  case Nil
  then show ?case by simp
next
  case (Cons c cs)
  have step: "content (inspectCall env p m cfg dry am st c) = content st \<and>
         modified (inspectCall env p m cfg dry am st c) = modified st \<and>
         panicked (inspectCall env p m cfg dry am st c) = panicked st \<and>
         modifications (inspectCall env p m cfg dry am st c) = modifications st"
  proof (cases "m (Pos c)")
    case None
    then show ?thesis by (simp add: inspectCall_def)
  next
    case (Some u)
    obtain e where "generateStructuredLogCall env u cfg am = Inl e" using assms by blast
    with Some show ?thesis by (simp add: inspectCall_def)
  qed
  show ?case using Cons.IH [of "inspectCall env p m cfg dry am st c"] step by simp
qed


lemma transformFile_files_nogen:
  assumes "\<And>u. \<exists>e. generateStructuredLogCall env u cfg am = Inl e"
  shows "files (snd (transformFile env p us cfg dry am w)) = files w"
  using nogen_fold [OF assms, of p "buildUpdateMap us" dry]
  by (simp add: transformFile_def Let_def inspectCalls_def split: option.splits sum.splits)

lemma transformFiles_files:
  assumes "\<And>p us w. files (snd (transformFile env p us cfg dry am w)) = files w"
  shows "files (snd (transformFiles env fus cfg dry am w)) = files w"
proof (induction fus arbitrary: w)
  case Nil
  then show ?case by simp
next
  case (Cons pu fus)
  obtain p us where pu: "pu = (p, us)" by (cases pu)
  obtain r w' where r: "transformFile env p us cfg dry am w = (r, w')"
    by (cases "transformFile env p us cfg dry am w")
  have w': "files w' = files w" using assms [of p us w] r by simp
  show ?case
  proof (cases r)
    case None
    then show ?thesis using pu r w' Cons.IH [of w'] by simp
  next
    case (Some e)
    then show ?thesis using pu r w' by (cases e) simp_all
  qed
qed

lemma loadUpdates_files: "files (snd (loadUpdates env csvFile w)) = files w"
  by (simp add: loadUpdates_def Let_def split: sum.splits prod.splits)

lemma Transform_files:
  assumes "\<And>cfg p us w. loadTemplateConfig env configFile = Inr cfg \<Longrightarrow>
             files (snd (transformFile env p us cfg dry am w)) = files w"
  shows "files (snd (Transform env order csvFile rootPath dry configFile am w)) = files w"
proof (cases "loadTemplateConfig env configFile")
  case (Inl e)
  then show ?thesis by (simp add: Transform_def)
next
  case (Inr cfg)
  obtain r w1 where l: "loadUpdates env csvFile w = (r, w1)" by (cases "loadUpdates env csvFile w")
  have w1: "files w1 = files w" using loadUpdates_files [of env csvFile w] l by simp
  show ?thesis
  proof (cases r)
    case (Inl e)
    then show ?thesis using Inr l w1 by (simp add: Transform_def)
  next
    case (Inr us)
    have "files (snd (transformFiles env (order (groupUpdates us)) cfg dry am w1)) = files w1"
      by (rule transformFiles_files) (rule assms [OF \<open>loadTemplateConfig env configFile = Inr cfg\<close>])
    then show ?thesis
      using Inr \<open>loadTemplateConfig env configFile = Inr cfg\<close> l w1
      by (simp add: Transform_def Let_def)
  qed
qed

section \<open>Lemmas on the catalog\<close>

lemma addUpdate_member:
  "(p, us) \<in> set (addUpdate u g) \<Longrightarrow> v \<in> set us \<Longrightarrow>
   v = u \<or> (\<exists>us'. (p, us') \<in> set g \<and> v \<in> set us')"
  by (induction u g rule: addUpdate.induct) (auto split: if_splits)

lemma group_fold_kept:
  "\<forall>(p, us) \<in> set g. \<forall>v \<in> set us. \<not> skipUpdate v \<Longrightarrow>
   \<forall>(p, us) \<in> set (foldl (\<lambda>fileUpdates update.
        if skipUpdate update then fileUpdates else addUpdate update fileUpdates) g updates).
     \<forall>v \<in> set us. \<not> skipUpdate v"
proof (induction updates arbitrary: g)
  case Nil
  then show ?case by simp
next
  case (Cons u updates)
  show ?case
  proof (cases "skipUpdate u")
    case True
    then show ?thesis using Cons.IH [OF Cons.prems] by simp
  next
    case False
    have "\<forall>(p, us) \<in> set (addUpdate u g). \<forall>v \<in> set us. \<not> skipUpdate v"
      using addUpdate_member [of _ _ u g] Cons.prems False by blast
    from Cons.IH [OF this] show ?thesis using False by simp
  qed
qed

lemma groupUpdates_kept:
  "(p, us) \<in> set (groupUpdates updates) \<Longrightarrow> v \<in> set us \<Longrightarrow> \<not> skipUpdate v"
  using group_fold_kept [of "[]" updates] by (auto simp add: groupUpdates_def)

lemma group_fold_all_skipped:
  "\<forall>u \<in> set updates. skipUpdate u \<Longrightarrow>
   foldl (\<lambda>fileUpdates update.
            if skipUpdate update then fileUpdates else addUpdate update fileUpdates) g updates = g"
  by (induction updates arbitrary: g) simp_all

lemma groupUpdates_all_skipped: "\<forall>u \<in> set updates. skipUpdate u \<Longrightarrow> groupUpdates updates = []"
  by (simp add: groupUpdates_def group_fold_all_skipped)

lemma loadRows_entryRow:
  "loadRows i (entryRow e # rest) =
     (fst (loadRows (i + 1) rest),
      \<lparr>ID = entID e, FilePath = entFilePath e, Line = Atoi (Itoa (entLine e)),
       Column = Atoi (Itoa (entColumn e)), OriginalCall = entOriginalCall e,
       LogLevel = entLogLevel e, MessageTemplate = entMessageTemplate e,
       ArgumentDetails = formatArgumentDetails (entArguments e), NewCall = entNewCall e,
       NewMessage = entNewMessage e, StructuredFields = entStructuredFields e\<rparr>
      # snd (loadRows (i + 1) rest))"
  by (simp add: entryRow_def split: prod.splits)

lemma loadRows_exported:
  "u \<in> set (snd (loadRows i (map entryRow es))) \<Longrightarrow>
   \<exists>e \<in> set es. NewCall u = entNewCall e \<and> NewMessage u = entNewMessage e"
proof (induction es arbitrary: i)
  case Nil
  then show ?case by simp
next
  case (Cons e es)
  from Cons.prems have "NewCall u = entNewCall e \<and> NewMessage u = entNewMessage e \<or>
      u \<in> set (snd (loadRows (i + 1) (map entryRow es)))"
    by (auto simp add: loadRows_entryRow simp del: loadRows.simps)
  then show ?case using Cons.IH [of "i + 1"] by auto
qed

lemma parseCall_blank:
  "\<forall>e \<in> set (fst st). entNewCall e = [] \<and> entNewMessage e = [] \<Longrightarrow>
   \<forall>e \<in> set (fst (parseCall fp pkg pat st c)). entNewCall e = [] \<and> entNewMessage e = []"
  by (auto simp add: parseCall_def Let_def split: prod.splits)

lemma parseCalls_blank:
  "\<forall>e \<in> set (fst st). entNewCall e = [] \<and> entNewMessage e = [] \<Longrightarrow>
   \<forall>e \<in> set (fst (foldl (parseCall fp pkg pat) st cs)). entNewCall e = [] \<and> entNewMessage e = []"
proof (induction cs arbitrary: st)
  case Nil
  then show ?case by simp
next
  case (Cons c cs)
  show ?case using Cons.IH [OF parseCall_blank [OF Cons.prems]] by simp
qed

lemma parseFile_blank:
  "\<forall>e \<in> set (fst (parseFile fp node pat n)). entNewCall e = [] \<and> entNewMessage e = []"
  unfolding parseFile_def by (rule parseCalls_blank) simp

lemma collectFiles_blank:
  "\<forall>e \<in> set (fst st). entNewCall e = [] \<and> entNewMessage e = [] \<Longrightarrow>
   \<forall>e \<in> set (fst (fst (collectFiles env pat paths st w))). entNewCall e = [] \<and> entNewMessage e = []"
proof (induction paths arbitrary: st w)
  case Nil
  then show ?case by simp
next
  case (Cons path paths)
  show ?case
  proof (cases "case files w path of None \<Rightarrow> Inl ''no such file'' | Some c \<Rightarrow> parseGo env path c")
    case (Inl e)
    then show ?thesis using Cons.IH [OF Cons.prems] by simp
  next
    case (Inr node)
    obtain fileEntries entryID where pf: "parseFile path node pat (snd st) = (fileEntries, entryID)"
      by (cases "parseFile path node pat (snd st)")
    have "\<forall>e \<in> set fileEntries. entNewCall e = [] \<and> entNewMessage e = []"
      using parseFile_blank [of path node pat "snd st"] pf by simp
    then have "\<forall>e \<in> set (fst (fst st @ fileEntries, entryID)). entNewCall e = [] \<and> entNewMessage e = []"
      using Cons.prems by auto
    from Cons.IH [OF this] show ?thesis using Inr pf by simp
  qed
qed

lemma Collect_blank:
  assumes "Collect env paths pattern w0 = (Inr records, w1)"
  shows "\<exists>es. records = header # map entryRow es \<and>
              (\<forall>e \<in> set es. entNewCall e = [] \<and> entNewMessage e = [])"
proof (cases "matchPattern env pattern")
  case (Inl e)
  then show ?thesis using assms by (simp add: Collect_def)
next
  case (Inr pat)
  obtain st w' where c: "collectFiles env pat paths ([], 1) w0 = (st, w')"
    by (cases "collectFiles env pat paths ([], 1) w0")
  have "\<forall>e \<in> set (fst st). entNewCall e = [] \<and> entNewMessage e = []"
    using collectFiles_blank [of "([], 1)" env pat paths w0] c by simp
  moreover have "records = header # map entryRow (fst st)"
    using assms Inr c by (simp add: Collect_def exportToCSV_def)
  ultimately show ?thesis by blast
qed

lemma Transform_unedited:
  assumes "readCSV env csvFile = Inr (header # map entryRow es)"
    and "\<forall>e \<in> set es. entNewCall e = [] \<and> entNewMessage e = []"
  shows "files (snd (Transform env order csvFile rootPath dryRun configFile autoMap w)) = files w \<and>
         fst (Transform env order csvFile rootPath dryRun configFile autoMap w) \<noteq> Some Panic"
proof -
  obtain ws us where r: "loadRows 1 (map entryRow es) = (ws, us)"
    by (cases "loadRows 1 (map entryRow es)")
  have "\<forall>u \<in> set us. skipUpdate u"
  proof
    fix u assume "u \<in> set us"
    then obtain e where "e \<in> set es" "NewCall u = entNewCall e" "NewMessage u = entNewMessage e"
      using loadRows_exported [of u 1 es] r by auto
    then show "skipUpdate u" using assms(2) by (simp add: skipUpdate_def)
  qed
  then have g: "groupUpdates us = []" by (rule groupUpdates_all_skipped)
  show ?thesis
    using assms(1) r g
    by (cases "loadTemplateConfig env configFile")
       (simp_all add: Transform_def loadUpdates_def Let_def)
qed

section \<open>Lemmas on the argument analyzer\<close>

lemma length_processArgs: "length (processArgs verbs i rest) = length rest"
  by (induction rest arbitrary: i) (simp_all add: Let_def)

lemma nth_processArgs:
  "1 \<le> i \<Longrightarrow> j < length rest \<Longrightarrow>
   argIndex (processArgs verbs i rest ! j) = i - 1 + int j \<and>
   argExpression (processArgs verbs i rest ! j) = formatExpr (rest ! j) \<and>
   argType (processArgs verbs i rest ! j) = inferType (rest ! j) \<and>
   argFormatVerb (processArgs verbs i rest ! j) =
     (if nat (i - 1) + j < length verbs then verbs ! (nat (i - 1) + j) else [])"
proof (induction rest arbitrary: i j)
  case Nil
  then show ?case by simp
next
  case (Cons arg rest)
  show ?case
  proof (cases j)
    case 0
    then show ?thesis using Cons.prems by (simp add: Let_def) linarith
  next
    case (Suc k)
    have i: "1 \<le> i + 1" using Cons.prems by simp
    have k: "k < length rest" using Cons.prems Suc by simp
    have n: "nat (i + 1 - 1) + k = nat (i - 1) + Suc k" using Cons.prems by simp
    show ?thesis using Cons.IH [OF i k] Suc n by (simp add: Let_def)
  qed
qed

lemma verbs_processArgs:
  "1 \<le> i \<Longrightarrow>
   length (filter (\<lambda>a. argFormatVerb a \<noteq> []) (processArgs verbs i rest)) \<le> length verbs - nat (i - 1)"
proof (induction rest arbitrary: i)
  case Nil
  then show ?case by simp
next
  case (Cons arg rest)
  have i: "1 \<le> i + 1" using Cons.prems by simp
  have n: "nat (i + 1 - 1) = Suc (nat (i - 1))" using Cons.prems by simp
  show ?case using Cons.IH [OF i] Cons.prems n by (auto simp add: Let_def)
qed

section \<open>Lemmas on the map of updates\<close>

lemma update_fold_agree:
  "m k = m' k \<Longrightarrow>
   foldl (\<lambda>m update. m((Line update, Column update) \<mapsto> update)) m us k =
   foldl (\<lambda>m update. m((Line update, Column update) \<mapsto> update)) m' us k"
proof (induction us arbitrary: m m')
  case Nil
  then show ?case by simp
next
  case (Cons u us)
  have "(m((Line u, Column u) \<mapsto> u)) k = (m'((Line u, Column u) \<mapsto> u)) k"
    using Cons.prems by simp
  from Cons.IH [of "m((Line u, Column u) \<mapsto> u)" "m'((Line u, Column u) \<mapsto> u)", OF this]
  show ?case by simp
qed

lemma buildUpdateMap_without:
  "k \<noteq> (Line u, Column u) \<Longrightarrow> buildUpdateMap (us1 @ u # us2) k = buildUpdateMap (us1 @ us2) k"
proof -
  assume k: "k \<noteq> (Line u, Column u)"
  let ?f = "\<lambda>m update. m((Line update, Column update) \<mapsto> update)"
  have "((foldl ?f Map.empty us1)((Line u, Column u) \<mapsto> u)) k = (foldl ?f Map.empty us1) k"
    using k by simp
  from update_fold_agree [of "(foldl ?f Map.empty us1)((Line u, Column u) \<mapsto> u)" k
      "foldl ?f Map.empty us1" us2, OF this]
  show ?thesis by (simp add: buildUpdateMap_def)
qed

lemma inspectCall_agree:
  "m1 (Pos c) = m2 (Pos c) \<Longrightarrow>
   inspectCall env p m1 cfg dry am st c = inspectCall env p m2 cfg dry am st c"
  by (simp add: inspectCall_def)

lemma inspect_fold_agree:
  "\<forall>c \<in> set cs. m1 (Pos c) = m2 (Pos c) \<Longrightarrow>
   foldl (inspectCall env p m1 cfg dry am) st cs = foldl (inspectCall env p m2 cfg dry am) st cs"
proof (induction cs arbitrary: st)
  case Nil
  then show ?case by simp
next
  case (Cons c cs)
  have "m1 (Pos c) = m2 (Pos c)" using Cons.prems by simp
  then have "inspectCall env p m1 cfg dry am st c = inspectCall env p m2 cfg dry am st c"
    by (rule inspectCall_agree)
  then show ?case using Cons.IH [of "inspectCall env p m2 cfg dry am st c"] Cons.prems by simp
qed

lemma transformFile_without:
  assumes "Line u < 1 \<or> Column u < 1"
    and "files w p = Some c"
    and "parseGo env p c = Inr node"
    and "\<forall>call \<in> set (Calls node). 1 \<le> fst (Pos call) \<and> 1 \<le> snd (Pos call)"
  shows "transformFile env p (us1 @ u # us2) cfg dry am w = transformFile env p (us1 @ us2) cfg dry am w"
proof -
  have "\<forall>call \<in> set (Calls node).
      buildUpdateMap (us1 @ u # us2) (Pos call) = buildUpdateMap (us1 @ us2) (Pos call)"
  proof
    fix call assume "call \<in> set (Calls node)"
    then have "1 \<le> fst (Pos call) \<and> 1 \<le> snd (Pos call)" using assms(4) by blast
    then have "Pos call \<noteq> (Line u, Column u)" using assms(1) by (cases "Pos call") auto
    then show "buildUpdateMap (us1 @ u # us2) (Pos call) = buildUpdateMap (us1 @ us2) (Pos call)"
      by (rule buildUpdateMap_without)
  qed
  then have eq: "inspectCalls env p (buildUpdateMap (us1 @ u # us2)) cfg dry am c (Calls node) =
      inspectCalls env p (buildUpdateMap (us1 @ us2)) cfg dry am c (Calls node)"
    unfolding inspectCalls_def by (rule inspect_fold_agree)
  show ?thesis unfolding transformFile_def Let_def assms(2) assms(3) option.case sum.case eq
    by (rule refl)
qed

lemma inspect_fold_empty:
  "foldl (inspectCall env p Map.empty cfg dry am) st cs = st"
  by (induction cs arbitrary: st) (simp_all add: inspectCall_def)

lemma transformFile_no_updates:
  "files (snd (transformFile env p [] cfg dry am w)) = files w"
  by (simp add: transformFile_def Let_def inspectCalls_def buildUpdateMap_def inspect_fold_empty
      split: option.splits sum.splits)

lemma Atoi_no_numeral: "\<not> isNumeral s \<Longrightarrow> Atoi s = 0"
  by (simp add: Atoi_def)

section \<open>Lemmas on entries that fail to generate\<close>




section \<open>One replacement is exact\<close>

lemma Split_append:
  "Split (a @ b) sep =
     butlast (Split a sep) @ [last (Split a sep) @ hd (Split b sep)] @ tl (Split b sep)"
proof (induction a)
  case Nil
  then show ?case using Split_not_Nil [of b sep] by simp
next
  case (Cons c a)
  show ?case
  proof (cases "Split a sep")
    case Nil
    then show ?thesis using Split_not_Nil by blast
  next
    case (Cons x xs)
    then show ?thesis using Cons.IH by (cases xs) auto
  qed
qed

lemma Join_Cons: "ys \<noteq> [] \<Longrightarrow> Join (x # ys) sep = x @ sep @ Join ys sep"
  by (cases ys) simp_all

lemma Join_splice:
  "A \<noteq> [] \<Longrightarrow> P \<noteq> [] \<Longrightarrow>
   Join (butlast A @ [last A @ X @ hd P] @ tl P) sep = Join A sep @ X @ Join P sep"
proof (induction A)
  case Nil
  then show ?case by simp
next
  case (Cons a A)
  show ?case
  proof (cases A)
    case Nil
    then show ?thesis using Cons.prems(2) by (cases P; cases "tl P") auto
  next
    case (Cons b B)
    then have "A \<noteq> []" by simp
    then show ?thesis using Cons.IH Cons.prems(2) by (simp add: Join_Cons)
  qed
qed

lemma Split_single: "sep \<notin> set s \<Longrightarrow> Split s sep = [s]"
  by (induction s) auto

lemma replace_on_lines_one:
  assumes lines: "Split src (CHR 0x0A) = B @ [l1 @ sp @ l2] @ T"
    and p: "Pos call = (int (length B) + 1, int (length l1) + 1)"
    and e: "End call = (int (length B) + 1, int (length (l1 @ sp)) + 1)"
  shows "replaceCallExpr call new src =
           Some (Join (B @ [l1 @ new @ l2] @ T) [CHR 0x0A])"
proof -
  have n: "(B @ [l1 @ sp @ l2] @ T) ! length B = l1 @ sp @ l2" by (simp add: nth_append)
  have u: "(B @ [l1 @ sp @ l2] @ T)[length B := l1 @ new @ l2] = B @ [l1 @ new @ l2] @ T"
    by (simp add: list_update_append)
  show ?thesis
    unfolding replaceCallExpr_def Let_def lines p e
    using n u by (simp add: indexChecked_def sliceToChecked_def sliceFromChecked_def)
qed

lemma replace_on_lines_many:
  assumes lines: "Split src (CHR 0x0A) = B @ [l1 @ s1] @ M @ [s2 @ l2] @ T"
    and p: "Pos call = (int (length B) + 1, int (length l1) + 1)"
    and e: "End call = (int (length B) + int (length M) + 2, int (length s2) + 1)"
  shows "replaceCallExpr call new src =
           Some (Join (B @ [l1 @ new @ l2] @ T) [CHR 0x0A])"
proof -
  have n1: "(B @ [l1 @ s1] @ M @ [s2 @ l2] @ T) ! length B = l1 @ s1" by (simp add: nth_append)
  have n2: "(B @ [l1 @ s1] @ M @ [s2 @ l2] @ T) ! (length B + length M + 1) = s2 @ l2"
    by (simp add: nth_append)
  have k: "nat (int (length B) + int (length M) + 2 - 1) = length B + length M + 1" by simp
  have k2: "nat (int (length B) + int (length M) + 2) = length B + length M + 2" by simp
  have d: "drop (length B + length M + 2) (B @ [l1 @ s1] @ M @ [s2 @ l2] @ T) = T" by simp
  show ?thesis
    unfolding replaceCallExpr_def Let_def lines p e
    using n1 n2 d k k2
    by (simp add: indexChecked_def sliceToChecked_def sliceFromChecked_def)
qed
lemma replace_exact:
  assumes p: "Pos call = positionAfter pre" and e: "End call = positionAfter (pre @ span)"
  shows "replaceCallExpr call new (pre @ span @ post) = Some (pre @ new @ post)"
proof -
  let ?nl = "CHR 0x0A"
  let ?A = "Split pre ?nl" and ?S = "Split span ?nl" and ?P = "Split post ?nl"
  have A: "?A \<noteq> []" and S: "?S \<noteq> []" and P: "?P \<noteq> []" by (rule Split_not_Nil)+
  have lenB: "int (length (butlast ?A)) + 1 = int (length ?A)" using A by (cases ?A) simp_all
  have final: "Join (butlast ?A @ [last ?A @ new @ hd ?P] @ tl ?P) [?nl] = pre @ new @ post"
    using Join_splice [OF A P, of new "[?nl]"] by (simp add: Join_Split)
  show ?thesis
  proof (cases "?nl \<in> set span")
    case False
    then have S1: "?S = [span]" by (rule Split_single)
    have sp: "Split (span @ post) ?nl = [span @ hd ?P] @ tl ?P"
      by (simp add: Split_append [of span post] S1)
    have lines: "Split (pre @ span @ post) ?nl = butlast ?A @ [last ?A @ span @ hd ?P] @ tl ?P"
      by (simp add: Split_append [of pre "span @ post"] sp)
    have ps: "Split (pre @ span) ?nl = butlast ?A @ [last ?A @ span]"
      by (simp add: Split_append [of pre span] S1)
    have p': "Pos call = (int (length (butlast ?A)) + 1, int (length (last ?A)) + 1)"
      using p lenB by (simp add: positionAfter_def)
    have e': "End call = (int (length (butlast ?A)) + 1, int (length (last ?A @ span)) + 1)"
      using e lenB A by (simp add: positionAfter_def ps)
    show ?thesis using replace_on_lines_one [OF lines p' e', of new] final by simp
  next
    case True
    then have "2 \<le> length ?S" by (simp add: length_Split filter_empty_conv Suc_le_eq length_greater_0_conv)
    then obtain s1 M s2 where S2: "?S = s1 # M @ [s2]"
      by (metis S append_butlast_last_id butlast.simps(2) length_Cons list.exhaust list.size(3)
          not_less_eq_eq numeral_2_eq_2 order_refl le_zero_eq)
    have sp: "Split (span @ post) ?nl = s1 # M @ [s2 @ hd ?P] @ tl ?P"
      by (simp add: Split_append [of span post] S2 butlast_append)
    have lines: "Split (pre @ span @ post) ?nl =
        butlast ?A @ [last ?A @ s1] @ M @ [s2 @ hd ?P] @ tl ?P"
      by (simp add: Split_append [of pre "span @ post"] sp)
    have ps: "Split (pre @ span) ?nl = butlast ?A @ [last ?A @ s1] @ M @ [s2]"
      by (simp add: Split_append [of pre span] S2)
    have p': "Pos call = (int (length (butlast ?A)) + 1, int (length (last ?A)) + 1)"
      using p lenB by (simp add: positionAfter_def)
    have e': "End call = (int (length (butlast ?A)) + int (length M) + 2, int (length s2) + 1)"
      using e lenB A by (simp add: positionAfter_def ps)
    show ?thesis using replace_on_lines_many [OF lines p' e', of new] final by simp
  qed
qed

lemma inspectCall_exact:
  assumes "\<not> panicked st" and "content st = pre @ span @ post"
    and "Pos call = positionAfter pre" and "End call = positionAfter (pre @ span)"
    and "updateMap (Pos call) = Some u"
    and "generateStructuredLogCall env u cfg am = Inr new"
  shows "content (inspectCall env p updateMap cfg False am st call) = pre @ new @ post \<and>
         modified (inspectCall env p updateMap cfg False am st call) \<and>
         \<not> panicked (inspectCall env p updateMap cfg False am st call)"
proof -
  have "replaceCallExpr call new (content st) = Some (pre @ new @ post)"
    unfolding assms(2) by (rule replace_exact [OF assms(3,4)])
  then show ?thesis using assms(1,5,6) by (simp add: inspectCall_def Let_def)
qed

text \<open>The positions of the two calls of the small project are those of their spans.\<close>

lemma demoCalls_spans:
  \<open>demoSource =
     (''package p'' @ [CHR 0x0A] @ ''func f() { '') @ ''log.Println("a")'' @
     (''; log.Println("b") }'' @ [CHR 0x0A]) \<and>
   Pos (demoCalls ! 0) = positionAfter (''package p'' @ [CHR 0x0A] @ ''func f() { '') \<and>
   End (demoCalls ! 0) =
     positionAfter ((''package p'' @ [CHR 0x0A] @ ''func f() { '') @ ''log.Println("a")'') \<and>
   demoSource =
     (''package p'' @ [CHR 0x0A] @ ''func f() { log.Println("a"); '') @ ''log.Println("b")'' @
     ('' }'' @ [CHR 0x0A]) \<and>
   Pos (demoCalls ! 1) =
     positionAfter (''package p'' @ [CHR 0x0A] @ ''func f() { log.Println("a"); '') \<and>
   End (demoCalls ! 1) =
     positionAfter ((''package p'' @ [CHR 0x0A] @ ''func f() { log.Println("a"); '') @
                    ''log.Println("b")'')\<close>
  by code_simp

section \<open>Plain candidates are read back as written\<close>

lemma graphic_no_space:
  "graphic c \<Longrightarrow> \<not> asciiSpace c \<and> \<not> space2 c b \<and> \<not> space3 c b d \<and>
     \<not> space2 b c \<and> \<not> space3 d b c"
  by (auto simp add: graphic_def asciiSpace_def space2_def space3_def)

lemma trimLeftSpace_graphic: "s = [] \<or> graphic (hd s) \<Longrightarrow> trimLeftSpace s = s"
  by (cases s rule: trimLeftSpace.cases) (auto simp add: graphic_no_space)

lemma trimLeftSpaceRev_graphic: "s = [] \<or> graphic (hd s) \<Longrightarrow> trimLeftSpaceRev s = s"
  by (cases s rule: trimLeftSpaceRev.cases) (auto simp add: graphic_no_space)

lemma TrimSpace_graphic:
  "s = [] \<or> (graphic (hd s) \<and> graphic (last s)) \<Longrightarrow> TrimSpace s = s"
proof -
  assume a: "s = [] \<or> (graphic (hd s) \<and> graphic (last s))"
  then have l: "trimLeftSpace s = s" by (auto intro: trimLeftSpace_graphic)
  have "rev s = [] \<or> graphic (hd (rev s))" using a by (auto simp add: hd_rev)
  then have "trimLeftSpaceRev (rev s) = rev s" by (rule trimLeftSpaceRev_graphic)
  then show ?thesis using l by (simp add: TrimSpace_def)
qed

lemma trimLeftSpace_blank: "trimLeftSpace (CHR '' '' # s) = trimLeftSpace s"
  by (cases s rule: trimLeftSpace.cases) (simp_all add: asciiSpace_def)

lemma TrimSpace_blank: "TrimSpace (CHR '' '' # s) = TrimSpace s"
  by (simp add: TrimSpace_def trimLeftSpace_blank)

lemma Index_absent: "c \<notin> set s \<Longrightarrow> Index s c = - 1"
  by (induction s) auto

lemma Index_nonneg: "c \<in> set s \<Longrightarrow> 0 \<le> Index s c"
  by (induction s) (auto simp add: Let_def)

lemma Index_first: "c \<notin> set a \<Longrightarrow> Index (a @ c # b) c = int (length a)"
  by (induction a) (auto simp add: Let_def)

lemma Split_first: "sep \<notin> set d \<Longrightarrow> Split (d @ sep # r) sep = d # Split r sep"
  by (induction d) auto

lemma drop_length_prefix: "drop (length xs) (xs @ ys) = ys"
  by simp

lemma autoGeneratePart_shape:
  assumes k: "list_all (\<lambda>c. graphic c \<and> c \<notin> set ''()=;'') k"
    and t: "list_all (\<lambda>c. graphic c \<and> c \<notin> set ''()=;'') t"
    and e: "list_all (\<lambda>c. graphic c \<and> c \<notin> set ''[;'') e"
    and vb: "vb = [] \<or> (\<exists>v. vb = CHR ''['' # v @ '']'')"
  shows "autoGeneratePart (k @ CHR ''('' # t @ CHR '')'' # CHR ''='' # e @ vb) =
           Some \<lparr>Key = k, Expression = e, Type = t\<rparr>"
proof -
  let ?d = "k @ CHR ''('' # t @ CHR '')'' # CHR ''='' # e @ vb"
  have gk: "\<forall>c \<in> set k. graphic c" and nk: "CHR ''('' \<notin> set k" "CHR '')'' \<notin> set k" "CHR ''='' \<notin> set k"
    using k by (auto simp add: list_all_iff)
  have gt: "\<forall>c \<in> set t. graphic c" and nt: "CHR '')'' \<notin> set t" "CHR ''='' \<notin> set t"
    using t by (auto simp add: list_all_iff)
  have ge: "\<forall>c \<in> set e. graphic c" and ne: "CHR ''['' \<notin> set e"
    using e by (auto simp add: list_all_iff)
  have gp: "graphic (CHR ''('')" "graphic (CHR ''='')" "graphic (CHR ''['')" "graphic (CHR '']'')"
    by (simp_all add: graphic_def)
  have hd_d: "graphic (hd ?d)" using gk gp by (cases k) simp_all
  have ev: "e @ vb = [] \<or> (graphic (hd (e @ vb)) \<and> graphic (last (e @ vb)))"
    using vb ge gp by (cases e) (auto simp add: last_append)
  have last_d: "graphic (last ?d)"
    using ev gp by (cases "e @ vb = []") (auto simp add: last_append)
  have ts_d: "TrimSpace ?d = ?d" using hd_d last_d by (intro TrimSpace_graphic) simp
  have ts_k: "TrimSpace k = k" using gk by (intro TrimSpace_graphic) (cases k, auto)
  have ts_t: "TrimSpace t = t" using gt by (intro TrimSpace_graphic) (cases t, auto)
  have ts_e: "TrimSpace e = e" using ge by (intro TrimSpace_graphic) (cases e, auto)
  have ts_ev: "TrimSpace (e @ vb) = e @ vb" using ev by (rule TrimSpace_graphic)
  have i1: "Index ?d (CHR ''('') = int (length k)" using nk(1) by (rule Index_first)
  have "Index ((k @ CHR ''('' # t) @ CHR '')'' # (CHR ''='' # e @ vb)) (CHR '')'') =
      int (length (k @ CHR ''('' # t))"
    using nk(2) nt(1) by (intro Index_first) simp
  then have i2: "Index ?d (CHR '')'') = int (length k) + 1 + int (length t)" by simp
  have "Index ((k @ CHR ''('' # t @ [CHR '')'']) @ CHR ''='' # (e @ vb)) (CHR ''='') =
      int (length (k @ CHR ''('' # t @ [CHR '')'']))"
    using nk(3) nt(2) by (intro Index_first) simp
  then have i3: "Index ?d (CHR ''='') = int (length k) + int (length t) + 2" by simp
  have s1: "sliceTo ?d (int (length k)) = k" by (simp add: sliceTo_def)
  have s2: "slice ?d (int (length k) + 1) (int (length k) + 1 + int (length t)) = t"
    by (simp add: slice_def nat_add_distrib)
  have d3: "?d = (k @ CHR ''('' # t @ [CHR '')'', CHR ''='']) @ (e @ vb)" by simp
  have n3: "nat (int (length k) + int (length t) + 2 + 1) =
      length (k @ CHR ''('' # t @ [CHR '')'', CHR ''=''])" by simp
  have s3: "sliceFrom ?d (int (length k) + int (length t) + 2 + 1) = e @ vb"
    unfolding sliceFrom_def n3 by (subst d3) (rule drop_length_prefix)
  have ex: "(if Index (e @ vb) (CHR ''['') \<noteq> - 1
             then TrimSpace (sliceTo (e @ vb) (Index (e @ vb) (CHR ''[''))) else e @ vb) = e"
  proof (cases "vb = []")
    case True
    then show ?thesis using ne by (simp add: Index_absent)
  next
    case False
    then obtain v where v: "vb = CHR ''['' # v @ '']''" using vb by blast
    have "Index (e @ CHR ''['' # v @ '']'') (CHR ''['') = int (length e)"
      using ne by (rule Index_first)
    then show ?thesis using v ts_e by (simp add: sliceTo_def)
  qed
  have ne_d: "?d \<noteq> []" by simp
  show ?thesis
    unfolding autoGeneratePart_def Let_def ts_d i1 i2 i3 s1 s2 s3 ts_k ts_t ts_ev ex
    using ne_d by simp
qed
lemma autoGeneratePart_blank: "autoGeneratePart (CHR '' '' # s) = autoGeneratePart s"
  unfolding autoGeneratePart_def TrimSpace_blank by (rule refl)

lemma formatArgumentDetail_plain:
  assumes "plainArgument a"
  shows "autoGeneratePart (formatArgumentDetail a) =
           Some \<lparr>Key = argSuggestedKey a, Expression = argExpression a, Type = argType a\<rparr>"
    and "CHR '';'' \<notin> set (formatArgumentDetail a)"
proof -
  define vb where "vb = (if argFormatVerb a \<noteq> [] then CHR ''['' # argFormatVerb a @ '']'' else [])"
  have d: "formatArgumentDetail a =
      argSuggestedKey a @ CHR ''('' # argType a @ CHR '')'' # CHR ''='' # argExpression a @ vb"
    by (simp add: formatArgumentDetail_def Let_def vb_def)
  have vb: "vb = [] \<or> (\<exists>v. vb = CHR ''['' # v @ '']'')"
    unfolding vb_def by (cases "argFormatVerb a = []") auto
  have k: "list_all (\<lambda>c. graphic c \<and> c \<notin> set ''()=;'') (argSuggestedKey a)"
    and t: "list_all (\<lambda>c. graphic c \<and> c \<notin> set ''()=;'') (argType a)"
    and e: "list_all (\<lambda>c. graphic c \<and> c \<notin> set ''[;'') (argExpression a)"
    and v: "list_all (\<lambda>c. c \<noteq> CHR '';'') (argFormatVerb a)"
    using assms unfolding plainArgument_def by blast+
  show "autoGeneratePart (formatArgumentDetail a) =
           Some \<lparr>Key = argSuggestedKey a, Expression = argExpression a, Type = argType a\<rparr>"
    unfolding d by (rule autoGeneratePart_shape [OF k t e vb])
  have "CHR '';'' \<notin> set vb" using v unfolding vb_def by (auto simp add: list_all_iff)
  moreover have "CHR '';'' \<notin> set (argSuggestedKey a)" using k by (auto simp add: list_all_iff)
  moreover have "CHR '';'' \<notin> set (argType a)" using t by (auto simp add: list_all_iff)
  moreover have "CHR '';'' \<notin> set (argExpression a)" using e by (auto simp add: list_all_iff)
  ultimately show "CHR '';'' \<notin> set (formatArgumentDetail a)"
    unfolding d by simp
qed

lemma Join_push: "Join ((c # x) # ys) sep = c # Join (x # ys) sep"
  by (cases ys) simp_all

lemma Split_Join_segments:
  "\<forall>d \<in> set (d0 # ds). CHR '';'' \<notin> set d \<Longrightarrow>
   Split (Join (d0 # ds) ''; '') (CHR '';'') = d0 # map ((#) (CHR '' '')) ds"
proof (induction ds arbitrary: d0)
  case Nil
  then show ?case by (simp add: Split_single)
next
  case (Cons d1 ds)
  have "\<forall>d \<in> set ((CHR '' '' # d1) # ds). CHR '';'' \<notin> set d" using Cons.prems by simp
  from Cons.IH [OF this]
  have "Split (CHR '' '' # Join (d1 # ds) ''; '') (CHR '';'') = (CHR '' '' # d1) # map ((#) (CHR '' '')) ds"
    by (simp only: Join_push)
  moreover have "Join (d0 # d1 # ds) ''; '' = d0 @ CHR '';'' # (CHR '' '' # Join (d1 # ds) ''; '')"
    by simp
  moreover have "CHR '';'' \<notin> set d0" using Cons.prems by simp
  ultimately show ?case by (simp add: Split_first)
qed

lemma map_filter_all_Some:
  "\<forall>x \<in> set xs. f x = Some (g x) \<Longrightarrow> List.map_filter f xs = map g xs"
  by (induction xs) (simp_all add: List.map_filter_def)

lemma plain_arguments_round_trip:
  assumes "list_all plainArgument args"
  shows "autoGenerateFieldsFromArguments (formatArgumentDetails args) =
           map (\<lambda>a. \<lparr>Key = argSuggestedKey a, Expression = argExpression a, Type = argType a\<rparr>) args"
proof (cases args)
  case Nil
  have "autoGeneratePart [] = None" by (simp add: autoGeneratePart_def TrimSpace_def)
  then show ?thesis
    using Nil
    by (simp add: formatArgumentDetails_def autoGenerateFieldsFromArguments_def map_filter_Cons
        map_filter_Nil)
next
  case (Cons a as)
  let ?g = "\<lambda>a. \<lparr>Key = argSuggestedKey a, Expression = argExpression a, Type = argType a\<rparr>"
  have pl: "\<forall>x \<in> set (a # as). plainArgument x" using assms Cons by (simp add: list_all_iff)
  have ns: "\<forall>d \<in> set (formatArgumentDetail a # map formatArgumentDetail as). CHR '';'' \<notin> set d"
    using pl formatArgumentDetail_plain(2) by auto
  have fd: "formatArgumentDetails (a # as) = Join (formatArgumentDetail a # map formatArgumentDetail as) ''; ''"
    by (simp add: formatArgumentDetails_def)
  have sp: "Split (formatArgumentDetails (a # as)) (CHR '';'') =
      formatArgumentDetail a # map ((#) (CHR '' '')) (map formatArgumentDetail as)"
    unfolding fd by (rule Split_Join_segments [OF ns])
  have hd: "autoGeneratePart (formatArgumentDetail a) = Some (?g a)"
    using pl formatArgumentDetail_plain(1) by simp
  have tl: "\<forall>x \<in> set as. (autoGeneratePart \<circ> ((#) (CHR '' '') \<circ> formatArgumentDetail)) x = Some (?g x)"
    using pl formatArgumentDetail_plain(1) by (simp add: autoGeneratePart_blank)
  have "List.map_filter autoGeneratePart (map ((#) (CHR '' '') \<circ> formatArgumentDetail) as) =
      List.map_filter (autoGeneratePart \<circ> ((#) (CHR '' '') \<circ> formatArgumentDetail)) as"
    by (simp add: List.map_filter_def filter_map comp_def)
  also have "\<dots> = map ?g as" using tl by (rule map_filter_all_Some)
  finally have rest: "List.map_filter autoGeneratePart (map ((#) (CHR '' '')) (map formatArgumentDetail as)) =
      map ?g as" by simp
  show ?thesis
    unfolding Cons autoGenerateFieldsFromArguments_def sp
    by (simp only: map_filter_Cons hd option.case rest list.map)
qed

lemma plain_arguments_resolve:
  assumes "list_all plainArgument args" and "StructuredFields u = []"
    and "ArgumentDetails u = formatArgumentDetails args"
  shows "resolveFields env u True =
           map (\<lambda>a. \<lparr>Key = argSuggestedKey a, Expression = argExpression a, Type = argType a\<rparr>) args"
proof -
  have none: "autoGenerateFieldsFromArguments [] = []"
    by (simp add: autoGenerateFieldsFromArguments_def autoGeneratePart_def TrimSpace_def)
  have "resolveFields env u True = autoGenerateFieldsFromArguments (ArgumentDetails u)"
    using assms(2) none by (simp add: resolveFields_def)
  then show ?thesis using plain_arguments_round_trip [OF assms(1)] by (simp add: assms(3))
qed

section \<open>Lemmas on what a run reports\<close>

lemma map_filter_append:
  "List.map_filter f (xs @ ys) = List.map_filter f xs @ List.map_filter f ys"
  by (simp add: List.map_filter_def)


lemma panicked_fold:
  "panicked st \<Longrightarrow> foldl (inspectCall env p m cfg dry am) st cs = st"
  by (induction cs) (simp_all add: inspectCall_def)

lemma inspectCall_reports:
  "\<not> panicked st \<Longrightarrow>
   modifications (inspectCall env p m cfg dry am st c) =
     modifications st @ reportedChanges env p m cfg am [c] \<and>
   warnings (inspectCall env p m cfg dry am st c) =
     warnings st @ reportedWarnings env m cfg am [c]"
  by (simp add: inspectCall_def Let_def reportedChanges_def reportedWarnings_def
      generatedFor_def map_filter_Cons map_filter_Nil split: option.splits sum.splits)

lemma reportedChanges_Cons:
  "reportedChanges env p m cfg am (c # cs) =
     reportedChanges env p m cfg am [c] @ reportedChanges env p m cfg am cs"
  using map_filter_append [of _ "[c]" cs] by (simp add: reportedChanges_def)

lemma reportedWarnings_Cons:
  "reportedWarnings env m cfg am (c # cs) =
     reportedWarnings env m cfg am [c] @ reportedWarnings env m cfg am cs"
  using map_filter_append [of _ "[c]" cs] by (simp add: reportedWarnings_def)

lemma fold_reports:
  "\<not> panicked (foldl (inspectCall env p m cfg dry am) st cs) \<Longrightarrow>
   modifications (foldl (inspectCall env p m cfg dry am) st cs) =
     modifications st @ reportedChanges env p m cfg am cs \<and>
   warnings (foldl (inspectCall env p m cfg dry am) st cs) =
     warnings st @ reportedWarnings env m cfg am cs"
proof (induction cs arbitrary: st)
  case Nil
  then show ?case by (simp add: reportedChanges_def reportedWarnings_def map_filter_Nil)
next
  case (Cons c cs)
  let ?st = "inspectCall env p m cfg dry am st c"
  have np: "\<not> panicked st"
  proof
    assume "panicked st"
    then have "foldl (inspectCall env p m cfg dry am) st (c # cs) = st" by (rule panicked_fold)
    then show False using Cons.prems \<open>panicked st\<close> by simp
  qed
  have "\<not> panicked (foldl (inspectCall env p m cfg dry am) ?st cs)" using Cons.prems by simp
  from Cons.IH [OF this] inspectCall_reports [OF np, of env p m cfg dry am c]
  show ?case
    by (simp add: reportedChanges_Cons [of env p m cfg am c cs]
        reportedWarnings_Cons [of env m cfg am c cs])
qed

lemma nogen_reports:
  assumes "\<And>u. generateStructuredLogCall env u cfg am = Inl e"
  shows "reportedChanges env p m cfg am cs = [] \<and>
         reportedWarnings env m cfg am cs = failureWarnings e m cs"
  by (induction cs)
     (simp_all add: reportedChanges_def reportedWarnings_def failureWarnings_def generatedFor_def
        map_filter_Cons map_filter_Nil assms split: option.splits)

lemma nogen_changes:
  assumes "\<And>u. \<exists>e. generateStructuredLogCall env u cfg am = Inl e"
  shows "reportedChanges env p m cfg am cs = []"
proof (induction cs)
  case Nil
  then show ?case by (simp add: reportedChanges_def map_filter_Nil)
next
  case (Cons c cs)
  have "reportedChanges env p m cfg am [c] = []"
  proof (cases "m (Pos c)")
    case None
    then show ?thesis
      by (simp add: reportedChanges_def generatedFor_def map_filter_Cons map_filter_Nil)
  next
    case (Some u)
    obtain e where "generateStructuredLogCall env u cfg am = Inl e" using assms by blast
    with Some show ?thesis
      by (simp add: reportedChanges_def generatedFor_def map_filter_Cons map_filter_Nil)
  qed
  then show ?case using Cons.IH by (simp add: reportedChanges_Cons [of env p m cfg am c cs])
qed

lemma quiet_inspectCalls:
  assumes "dry \<or> (\<forall>u. \<exists>e. generateStructuredLogCall env u cfg am = Inl e)"
  shows "content (inspectCalls env p m cfg dry am c0 cs) = c0 \<and>
         modifications (inspectCalls env p m cfg dry am c0 cs) = reportedChanges env p m cfg am cs \<and>
         warnings (inspectCalls env p m cfg dry am c0 cs) = reportedWarnings env m cfg am cs \<and>
         \<not> panicked (inspectCalls env p m cfg dry am c0 cs) \<and>
         (modified (inspectCalls env p m cfg dry am c0 cs) \<longrightarrow> \<not> dry \<longrightarrow> False) \<and>
         (\<not> dry \<longrightarrow> reportedChanges env p m cfg am cs = [])"
proof (cases dry)
  case True
  then show ?thesis by (simp add: dry_inspectCalls)
next
  case False
  then have ng: "\<And>u. \<exists>e. generateStructuredLogCall env u cfg am = Inl e" using assms by blast
  let ?s0 = "\<lparr>content = c0, modifications = [], modified = False, warnings = [], panicked = False\<rparr>"
  note n = nogen_fold [of env cfg am p m dry ?s0 cs, OF ng]
  have np: "\<not> panicked (foldl (inspectCall env p m cfg dry am) ?s0 cs)" using n by simp
  note r = fold_reports [OF np]
  show ?thesis using n r nogen_changes [of env cfg am p m cs, OF ng] by (simp add: inspectCalls_def)
qed

lemma transformFile_quiet:
  assumes "dry \<or> (\<forall>u. \<exists>e. generateStructuredLogCall env u cfg am = Inl e)"
  shows "transformFile env p us cfg dry am w =
     (case fileError env (files w) p of
        Some e \<Rightarrow> (Some (Err e), w)
      | None \<Rightarrow>
          (None, w\<lparr>stdout := stdout w @ filePreview env cfg am (files w) (p, us),
                   stderr := stderr w @ fileWarnings env cfg am (files w) (p, us)\<rparr>))"
proof (cases "files w p")
  case None
  then show ?thesis by (simp add: transformFile_def fileError_def)
next
  case (Some c)
  show ?thesis
  proof (cases "parseGo env p c")
    case (Inl e)
    then show ?thesis using Some by (simp add: transformFile_def fileError_def)
  next
    case (Inr node)
    define st where "st = inspectCalls env p (buildUpdateMap us) cfg dry am c (Calls node)"
    note q = quiet_inspectCalls [OF assms, of p "buildUpdateMap us" c "Calls node", folded st_def]
    have fe: "fileError env (files w) p = None" using Some Inr by (simp add: fileError_def)
    have fc: "fileCalls env (files w) p = Calls node" using Some Inr by (simp add: fileCalls_def)
    have t: "transformFile env p us cfg dry am w =
        (let w1 = w\<lparr>stderr := stderr w @ warnings st\<rparr>
         in if panicked st then (Some Panic, w1)
            else
              let w2 = w1\<lparr>stdout := stdout w1 @ concat (map (\<lambda>m. [m, []]) (modifications st))\<rparr>
              in if modified st \<and> \<not> dry then
                   (if canWrite env p then
                      (None, w2\<lparr>files := (files w2)(p \<mapsto> content st),
                                stdout := stdout w2 @
                                  [''Updated: '' @ p @ '' ('' @
                                   Itoa (int (length (modifications st))) @ '' changes)'']\<rparr>)
                    else (Some (Err (''open '' @ p @ '': permission denied'')), w2))
                 else if length (modifications st) > 0 \<and> dry then
                   (None, w2\<lparr>stdout := stdout w2 @
                                  [''Would update: '' @ p @ '' ('' @
                                   Itoa (int (length (modifications st))) @ '' changes)'']\<rparr>)
                 else (None, w2))"
      unfolding transformFile_def Let_def Some Inr option.case sum.case st_def by (rule refl)
    have m: "\<not> (modified st \<and> \<not> dry)" using q by blast
    have np: "\<not> panicked st" using q by blast
    show ?thesis
    proof (cases dry)
      case True
      show ?thesis unfolding t using q np m True by (simp add: fe fc filePreview_def fileWarnings_def Let_def)
    next
      case False
      then have "reportedChanges env p (buildUpdateMap us) cfg am (Calls node) = []" using q by blast
      then show ?thesis unfolding t using q np m False
        by (simp add: fe fc filePreview_def fileWarnings_def Let_def)
    qed
  qed
qed

lemma transformFiles_quiet:
  assumes "dry \<or> (\<forall>u. \<exists>e. generateStructuredLogCall env u cfg am = Inl e)"
  shows "transformFiles env fus cfg dry am w =
     (runError env (files w) fus,
      w\<lparr>stdout := stdout w @ concat (map (filePreview env cfg am (files w)) (visited env (files w) fus)),
        stderr := stderr w @ concat (map (fileWarnings env cfg am (files w)) (visited env (files w) fus))\<rparr>)"
proof (induction fus arbitrary: w)
  case Nil
  then show ?case by simp
next
  case (Cons fu fus)
  obtain p us where fu: "fu = (p, us)" by (cases fu)
  note t = transformFile_quiet [OF assms, of p us w]
  show ?case
  proof (cases "fileError env (files w) p")
    case (Some e)
    then show ?thesis using t fu by simp
  next
    case None
    let ?w = "w\<lparr>stdout := stdout w @ filePreview env cfg am (files w) (p, us),
                stderr := stderr w @ fileWarnings env cfg am (files w) (p, us)\<rparr>"
    have "transformFiles env (fu # fus) cfg dry am w = transformFiles env fus cfg dry am ?w"
      using t None fu by simp
    then show ?thesis using Cons.IH [of ?w] None fu by simp
  qed
qed

lemma loadUpdates_Inr:
  "loadUpdates env csvFile w = (Inr updates, w1) \<Longrightarrow> files w1 = files w \<and> stdout w1 = stdout w"
  by (auto simp add: loadUpdates_def Let_def split: sum.splits prod.splits if_splits)

lemma Transform_quiet:
  assumes "loadTemplateConfig env configFile = Inr cfg"
    and "loadUpdates env csvFile w = (Inr updates, w1)"
    and "groupUpdates updates \<noteq> []"
    and "dry \<or> (\<forall>u. \<exists>e. generateStructuredLogCall env u cfg am = Inl e)"
  shows "fst (Transform env order csvFile rootPath dry configFile am w) =
           runError env (files w) (order (groupUpdates updates)) \<and>
         files (snd (Transform env order csvFile rootPath dry configFile am w)) = files w \<and>
         stdout (snd (Transform env order csvFile rootPath dry configFile am w)) =
           stdout w @ concat (map (filePreview env cfg am (files w))
                                (visited env (files w) (order (groupUpdates updates)))) \<and>
         stderr (snd (Transform env order csvFile rootPath dry configFile am w)) =
           stderr w1 @ concat (map (fileWarnings env cfg am (files w))
                                 (visited env (files w) (order (groupUpdates updates))))"
proof -
  have "Transform env order csvFile rootPath dry configFile am w =
      transformFiles env (order (groupUpdates updates)) cfg dry am w1"
    using assms(1,2,3) by (simp add: Transform_def Let_def)
  then show ?thesis
    using transformFiles_quiet [OF assms(4), of "order (groupUpdates updates)" w1]
      loadUpdates_Inr [OF assms(2)]
    by simp
qed

lemma nogen_file:
  assumes "\<And>u. generateStructuredLogCall env u cfg am = Inl e"
  shows "filePreview env cfg am fs fu = [] \<and>
         fileWarnings env cfg am fs fu =
           failureWarnings e (buildUpdateMap (snd fu)) (fileCalls env fs (fst fu))"
  using nogen_reports [of env cfg am e, OF assms]
  by (simp add: filePreview_def fileWarnings_def Let_def)

lemma Transform_nogen:
  assumes "loadTemplateConfig env configFile = Inr cfg"
    and "loadUpdates env csvFile w = (Inr updates, w1)"
    and "groupUpdates updates \<noteq> []"
    and "\<And>u. generateStructuredLogCall env u cfg am = Inl e"
  shows "fst (Transform env order csvFile rootPath dry configFile am w) =
           runError env (files w) (order (groupUpdates updates)) \<and>
         files (snd (Transform env order csvFile rootPath dry configFile am w)) = files w \<and>
         stdout (snd (Transform env order csvFile rootPath dry configFile am w)) = stdout w \<and>
         stderr (snd (Transform env order csvFile rootPath dry configFile am w)) =
           stderr w1 @
           concat (map (\<lambda>fu. failureWarnings e (buildUpdateMap (snd fu)) (fileCalls env (files w) (fst fu)))
                     (visited env (files w) (order (groupUpdates updates))))"
proof -
  have q: "dry \<or> (\<forall>u. \<exists>e. generateStructuredLogCall env u cfg am = Inl e)"
    using assms(4) by blast
  have p: "\<And>fs fu. filePreview env cfg am fs fu = []"
    using nogen_file [of env cfg am e, OF assms(4)] by blast
  have f: "\<And>fs. fileWarnings env cfg am fs =
      (\<lambda>fu. failureWarnings e (buildUpdateMap (snd fu)) (fileCalls env fs (fst fu)))"
    using nogen_file [of env cfg am e, OF assms(4)] by blast
  show ?thesis
    using Transform_quiet [OF assms(1,2,3) q, of order rootPath] by (simp add: p f)
qed

lemma transformFile_nogen:
  assumes "files w p = Some c" and "parseGo env p c = Inr node"
    and "\<And>u. generateStructuredLogCall env u cfg am = Inl e"
  shows "fst (transformFile env p us cfg dry am w) = None \<and>
         files (snd (transformFile env p us cfg dry am w)) = files w \<and>
         stdout (snd (transformFile env p us cfg dry am w)) = stdout w \<and>
         stderr (snd (transformFile env p us cfg dry am w)) =
           stderr w @ failureWarnings e (buildUpdateMap us) (Calls node)"
proof -
  have q: "dry \<or> (\<forall>u. \<exists>e. generateStructuredLogCall env u cfg am = Inl e)"
    using assms(3) by blast
  have fe: "fileError env (files w) p = None" using assms(1,2) by (simp add: fileError_def)
  have fc: "fileCalls env (files w) p = Calls node" using assms(1,2) by (simp add: fileCalls_def)
  show ?thesis
    using transformFile_quiet [OF q, of p us w] nogen_file [of env cfg am e "files w" "(p, us)", OF assms(3)]
    by (simp add: fe fc)
qed
section \<open>Lemmas on a run without an entry that fails\<close>









section \<open>Lemmas on the pattern of the verbs\<close>

lemma takeWhile_stop: "\<not> P c \<Longrightarrow> takeWhile P (xs @ c # x) = takeWhile P xs"
  by (induction xs) simp_all

lemma dropWhile_stop: "\<not> P c \<Longrightarrow> dropWhile P (xs @ c # x) = dropWhile P xs @ c # x"
  by (induction xs) simp_all

lemma takeWhile_all: "list_all P xs \<Longrightarrow> \<not> P c \<Longrightarrow> takeWhile P (xs @ c # x) = xs"
  by (induction xs) simp_all

lemma dropWhile_all: "list_all P xs \<Longrightarrow> \<not> P c \<Longrightarrow> dropWhile P (xs @ c # x) = c # x"
  by (induction xs) simp_all

lemma list_all_takeWhile: "list_all P (takeWhile P xs)"
  by (induction xs) simp_all

lemma list_all_dropWhile: "list_all Q xs \<Longrightarrow> list_all Q (dropWhile P xs)"
  by (induction xs) simp_all

lemma verb_not_flag: "isVerb v \<Longrightarrow> \<not> isFlag v"
  by (auto simp add: isVerb_def isFlag_def)

lemma verb_not_digit: "isVerb v \<Longrightarrow> \<not> isDigit v"
  by (auto simp add: isVerb_def isDigit_def)

lemma verb_not_dot: "isVerb v \<Longrightarrow> v \<noteq> CHR ''.''"
  by (auto simp add: isVerb_def)

lemma dot_not_flag: "\<not> isFlag (CHR ''.'')"
  by (simp add: isFlag_def)

lemma dot_not_digit: "\<not> isDigit (CHR ''.'')"
  by (simp add: isDigit_def)

lemma flag_digit_run:
  assumes "list_all isFlag fl" and "list_all isDigit D" and "\<not> isFlag c" and "\<not> isDigit c"
  shows "takeWhile isFlag (fl @ D @ c # x) @ takeWhile isDigit (dropWhile isFlag (fl @ D @ c # x)) = fl @ D \<and>
         dropWhile isDigit (dropWhile isFlag (fl @ D @ c # x)) = c # x"
proof -
  have fl: "\<forall>y \<in> set fl. isFlag y" using assms(1) by (simp add: list_all_iff)
  have tf: "takeWhile isFlag (fl @ D @ c # x) = fl @ takeWhile isFlag D"
    using fl assms(3) by (simp add: takeWhile_stop)
  have df: "dropWhile isFlag (fl @ D @ c # x) = dropWhile isFlag D @ c # x"
    using fl assms(3) by (simp add: dropWhile_stop)
  have dd: "list_all isDigit (dropWhile isFlag D)" using assms(2) by (rule list_all_dropWhile)
  have td: "takeWhile isDigit (dropWhile isFlag D @ c # x) = dropWhile isFlag D"
    using dd assms(4) by (rule takeWhile_all)
  have d2: "dropWhile isDigit (dropWhile isFlag D @ c # x) = c # x"
    using dd assms(4) by (rule dropWhile_all)
  show ?thesis unfolding tf df td d2 by simp
qed

lemma matchVerb_eq:
  assumes "takeWhile isFlag s @ takeWhile isDigit (dropWhile isFlag s) = fw"
    and "dropWhile isDigit (dropWhile isFlag s) = r2"
  shows "matchVerb s =
     (let dot = (if r2 \<noteq> [] \<and> hd r2 = CHR ''.'' then ''.'' else []);
          r3 = (if r2 \<noteq> [] \<and> hd r2 = CHR ''.'' then tl r2 else r2);
          prec = takeWhile isDigit r3; r4 = dropWhile isDigit r3
      in if r4 \<noteq> [] \<and> isVerb (hd r4) then Some (fw @ dot @ prec @ [hd r4]) else None)"
  unfolding matchVerb_def Let_def assms(1) [symmetric] assms(2) [symmetric] append_assoc
  by (rule refl)

lemma matchVerb_complete:
  assumes "list_all isFlag fl" and "list_all isDigit wd" and "dt = [] \<or> dt = ''.''"
    and "list_all isDigit pr" and "isVerb v"
  shows "matchVerb (fl @ wd @ dt @ pr @ v # r) = Some (fl @ wd @ dt @ pr @ [v])"
proof -
  note nv = verb_not_flag [OF assms(5)] verb_not_digit [OF assms(5)] verb_not_dot [OF assms(5)]
  from assms(3) show ?thesis
  proof
    assume dt: "dt = []"
    define s where "s = fl @ (wd @ pr) @ v # r"
    have D: "list_all isDigit (wd @ pr)" using assms(2,4) by simp
    note run = flag_digit_run [OF assms(1) D nv(1) nv(2), of r, folded s_def]
    have "matchVerb s = Some ((fl @ wd @ pr) @ [] @ [] @ [v])"
      unfolding matchVerb_eq [OF run [THEN conjunct1] run [THEN conjunct2]] Let_def
      using nv assms(5) by simp
    then show ?thesis by (simp add: s_def dt)
  next
    assume dt: "dt = ''.''"
    define s where "s = fl @ wd @ CHR ''.'' # pr @ v # r"
    note run = flag_digit_run [OF assms(1) assms(2) dot_not_flag dot_not_digit, of "pr @ v # r",
        folded s_def]
    have tp: "takeWhile isDigit (pr @ v # r) = pr" using assms(4) nv(2) by (rule takeWhile_all)
    have dp: "dropWhile isDigit (pr @ v # r) = v # r" using assms(4) nv(2) by (rule dropWhile_all)
    have "matchVerb s = Some ((fl @ wd) @ ''.'' @ pr @ [v])"
      unfolding matchVerb_eq [OF run [THEN conjunct1] run [THEN conjunct2]] Let_def
      using assms(5) by (simp add: tp dp)
    then show ?thesis by (simp add: s_def dt)
  qed
qed

lemma matchVerb_sound:
  assumes "matchVerb s = Some m"
  shows "verbToken (CHR ''%'' # m) \<and> (\<exists>r. s = m @ r)"
proof -
  define flags where "flags = takeWhile isFlag s"
  define r1 where "r1 = dropWhile isFlag s"
  define width where "width = takeWhile isDigit r1"
  define r2 where "r2 = dropWhile isDigit r1"
  define dot where "dot = (if r2 \<noteq> [] \<and> hd r2 = CHR ''.'' then ''.'' else [])"
  define r3 where "r3 = (if r2 \<noteq> [] \<and> hd r2 = CHR ''.'' then tl r2 else r2)"
  define prec where "prec = takeWhile isDigit r3"
  define r4 where "r4 = dropWhile isDigit r3"
  have mv: "matchVerb s =
      (if r4 \<noteq> [] \<and> isVerb (hd r4) then Some (flags @ width @ dot @ prec @ [hd r4]) else None)"
    unfolding matchVerb_def Let_def flags_def r1_def width_def r2_def dot_def r3_def prec_def r4_def
    by (rule refl)
  have r4: "r4 \<noteq> []" "isVerb (hd r4)" and m: "m = flags @ width @ dot @ prec @ [hd r4]"
    using assms mv by (auto split: if_splits)
  have s1: "s = flags @ r1" by (simp add: flags_def r1_def)
  have s2: "r1 = width @ r2" by (simp add: width_def r2_def)
  have s3: "r2 = dot @ r3" by (cases r2) (simp_all add: dot_def r3_def)
  have s4: "r3 = prec @ r4" by (simp add: prec_def r4_def)
  have s5: "r4 = hd r4 # tl r4" using r4(1) by simp
  have "s = flags @ width @ dot @ prec @ hd r4 # tl r4"
    using s1 s2 s3 s4 s5 by simp
  then have e: "s = m @ tl r4" by (simp add: m)
  have d: "dot = [] \<or> dot = ''.''" by (simp add: dot_def)
  have "verbToken (CHR ''%'' # m)"
    unfolding verbToken_def m
    using d r4(2) list_all_takeWhile [of isFlag s] list_all_takeWhile [of isDigit r1]
      list_all_takeWhile [of isDigit r3]
    unfolding flags_def [symmetric] width_def [symmetric] prec_def [symmetric]
    by blast
  then show ?thesis using e by blast
qed

lemma token_prefix:
  assumes "verbToken t" and "t @ b = c # cs"
  shows "c = CHR ''%'' \<and> (\<exists>m. t = c # m \<and> cs = m @ b \<and> matchVerb cs = Some m)"
proof -
  from assms(1) obtain fl wd dt pr v where
    t: "t = CHR ''%'' # fl @ wd @ dt @ pr @ [v]" and
    h: "list_all isFlag fl" "list_all isDigit wd" "dt = [] \<or> dt = ''.''" "list_all isDigit pr" "isVerb v"
    unfolding verbToken_def by blast
  have c: "c = CHR ''%''" and cs: "cs = (fl @ wd @ dt @ pr @ [v]) @ b" using assms(2) t by simp_all
  have "matchVerb (fl @ wd @ dt @ pr @ v # b) = Some (fl @ wd @ dt @ pr @ [v])"
    by (rule matchVerb_complete [OF h])
  then have "matchVerb cs = Some (fl @ wd @ dt @ pr @ [v])" by (simp add: cs)
  then show ?thesis using c cs t by blast
qed

lemma findVerbs_skip: "findVerbs k s = findVerbs 0 (drop k s)"
proof (induction k arbitrary: s)
  case 0
  then show ?case by simp
next
  case (Suc k)
  then show ?case by (cases s) simp_all
qed

lemma findVerbs_match:
  "matchVerb (m @ r) = Some m \<Longrightarrow>
   findVerbs 0 (CHR ''%'' # m @ r) = (CHR ''%'' # m) # findVerbs 0 r"
  using findVerbs_skip [of "length m" "m @ r"] by simp

lemma findVerbs_no_match:
  "\<not> (c = CHR ''%'' \<and> (\<exists>m. matchVerb cs = Some m)) \<Longrightarrow> findVerbs 0 (c # cs) = findVerbs 0 cs"
  by (cases "matchVerb cs") auto

lemma not_verbToken_Nil: "\<not> verbToken []"
  by (simp add: verbToken_def)

lemma allVerbs_Cons:
  assumes "allVerbs cs vs" and "\<And>t b. verbToken t \<Longrightarrow> t @ b \<noteq> c # cs"
  shows "allVerbs (c # cs) vs"
  using assms(1)
proof (cases rule: allVerbs.cases)
  case no_verb
  have "\<forall>a t b. c # cs = a @ t @ b \<longrightarrow> \<not> verbToken t"
  proof (intro allI impI)
    fix a t b assume e: "c # cs = a @ t @ b"
    show "\<not> verbToken t"
    proof (cases a)
      case Nil
      then show ?thesis using e assms(2) [of t b] by auto
    next
      case (Cons x a')
      then have "cs = a' @ t @ b" using e by simp
      then show ?thesis using no_verb(2) by blast
    qed
  qed
  then show ?thesis unfolding no_verb(1) by (rule allVerbs.no_verb)
next
  case (next_verb t a b ts)
  have l: "\<forall>a' t' b'. (c # a) @ t @ b = a' @ t' @ b' \<longrightarrow> verbToken t' \<longrightarrow> length (c # a) \<le> length a'"
  proof (intro allI impI)
    fix a' t' b' assume e: "(c # a) @ t @ b = a' @ t' @ b'" and v: "verbToken t'"
    show "length (c # a) \<le> length a'"
    proof (cases a')
      case Nil
      then have "t' @ b' = c # cs" using e next_verb(1) by simp
      then show ?thesis using assms(2) [OF v] by blast
    next
      case (Cons x a'')
      then have "a @ t @ b = a'' @ t' @ b'" using e by simp
      then have "length a \<le> length a''" using next_verb(4) v by blast
      then show ?thesis using Cons by simp
    qed
  qed
  have "allVerbs ((c # a) @ t @ b) (t # ts)"
    using next_verb(3) l next_verb(5) by (rule allVerbs.next_verb)
  then show ?thesis using next_verb(1,2) by simp
qed

lemma findVerbs_allVerbs: "allVerbs s (findVerbs 0 s)"
proof (induction s rule: length_induct)
  case (1 s)
  show ?case
  proof (cases s)
    case Nil
    have "\<forall>a t b. ([] :: string) = a @ t @ b \<longrightarrow> \<not> verbToken t"
      using not_verbToken_Nil by simp
    then have "allVerbs [] []" by (rule allVerbs.no_verb)
    then show ?thesis using Nil by simp
  next
    case (Cons c cs)
    show ?thesis
    proof (cases "c = CHR ''%'' \<and> (\<exists>m. matchVerb cs = Some m)")
      case True
      then obtain m where c: "c = CHR ''%''" and m: "matchVerb cs = Some m" by blast
      from matchVerb_sound [OF m] obtain r where t: "verbToken (CHR ''%'' # m)" and r: "cs = m @ r"
        by blast
      have f: "findVerbs 0 s = (CHR ''%'' # m) # findVerbs 0 r"
        using findVerbs_match [of m r] m r Cons c by simp
      have "length r < length s" using Cons r by simp
      then have ih: "allVerbs r (findVerbs 0 r)" using 1 by blast
      have l: "\<forall>a' t' b'. [] @ (CHR ''%'' # m) @ r = a' @ t' @ b' \<longrightarrow> verbToken t' \<longrightarrow>
          length ([] :: string) \<le> length a'"
        by simp
      have "allVerbs ([] @ (CHR ''%'' # m) @ r) ((CHR ''%'' # m) # findVerbs 0 r)"
        using t l ih by (rule allVerbs.next_verb)
      then show ?thesis using f Cons c r by simp
    next
      case False
      have f: "findVerbs 0 s = findVerbs 0 cs" using findVerbs_no_match [OF False] Cons by simp
      have "length cs < length s" using Cons by simp
      then have ih: "allVerbs cs (findVerbs 0 cs)" using 1 by blast
      have "\<And>t b. verbToken t \<Longrightarrow> t @ b \<noteq> c # cs"
        using token_prefix False by blast
      with ih have "allVerbs (c # cs) (findVerbs 0 cs)" by (rule allVerbs_Cons)
      then show ?thesis using f Cons by simp
    qed
  qed
qed

lemma findVerbs_none:
  "\<forall>a t b. s = a @ t @ b \<longrightarrow> \<not> verbToken t \<Longrightarrow> findVerbs 0 s = []"
proof (induction s)
  case Nil
  then show ?case by simp
next
  case (Cons c cs)
  have n: "\<not> (c = CHR ''%'' \<and> (\<exists>m. matchVerb cs = Some m))"
  proof
    assume "c = CHR ''%'' \<and> (\<exists>m. matchVerb cs = Some m)"
    then obtain m where c: "c = CHR ''%''" and m: "matchVerb cs = Some m" by blast
    from matchVerb_sound [OF m] obtain r where t: "verbToken (CHR ''%'' # m)" and r: "cs = m @ r"
      by blast
    have "c # cs = [] @ (CHR ''%'' # m) @ r" using c r by simp
    then show False using Cons.prems t by blast
  qed
  have "\<forall>a t b. cs = a @ t @ b \<longrightarrow> \<not> verbToken t"
  proof (intro allI impI)
    fix a t b assume "cs = a @ t @ b"
    then have "c # cs = (c # a) @ t @ b" by simp
    then show "\<not> verbToken t" using Cons.prems by blast
  qed
  then have "findVerbs 0 cs = []" by (rule Cons.IH)
  then show ?case using findVerbs_no_match [OF n] by simp
qed

lemma findVerbs_leftmost:
  "verbToken t \<Longrightarrow>
   \<forall>a' t' b'. a @ t @ b = a' @ t' @ b' \<longrightarrow> verbToken t' \<longrightarrow> length a \<le> length a' \<Longrightarrow>
   findVerbs 0 (a @ t @ b) = t # findVerbs 0 b"
proof (induction a)
  case Nil
  obtain c cs where tb: "t @ b = c # cs" using Nil.prems(1) not_verbToken_Nil by (cases t) auto
  from token_prefix [OF Nil.prems(1) tb] obtain m where
    c: "c = CHR ''%''" and t: "t = c # m" and cs: "cs = m @ b" and m: "matchVerb cs = Some m"
    by blast
  have "matchVerb (m @ b) = Some m" using m cs by simp
  then have "findVerbs 0 (CHR ''%'' # m @ b) = (CHR ''%'' # m) # findVerbs 0 b"
    by (rule findVerbs_match)
  then show ?case using t c by simp
next
  case (Cons c a)
  have n: "\<not> (c = CHR ''%'' \<and> (\<exists>m. matchVerb (a @ t @ b) = Some m))"
  proof
    assume "c = CHR ''%'' \<and> (\<exists>m. matchVerb (a @ t @ b) = Some m)"
    then obtain m where c: "c = CHR ''%''" and m: "matchVerb (a @ t @ b) = Some m" by blast
    from matchVerb_sound [OF m] obtain r where v: "verbToken (CHR ''%'' # m)" and r: "a @ t @ b = m @ r"
      by blast
    have "(c # a) @ t @ b = [] @ (CHR ''%'' # m) @ r" using c r by simp
    then have "length (c # a) \<le> length ([] :: string)" using Cons.prems(2) v by blast
    then show False by simp
  qed
  have l: "\<forall>a' t' b'. a @ t @ b = a' @ t' @ b' \<longrightarrow> verbToken t' \<longrightarrow> length a \<le> length a'"
  proof (intro allI impI)
    fix a' t' b' assume e: "a @ t @ b = a' @ t' @ b'" and v: "verbToken t'"
    have "(c # a) @ t @ b = (c # a') @ t' @ b'" using e by simp
    then have "length (c # a) \<le> length (c # a')" using Cons.prems(2) v by blast
    then show "length a \<le> length a'" by simp
  qed
  have "findVerbs 0 ((c # a) @ t @ b) = findVerbs 0 (a @ t @ b)"
    using findVerbs_no_match [OF n] by simp
  then show ?case using Cons.IH [OF Cons.prems(1) l] by simp
qed

lemma allVerbs_findVerbs: "allVerbs s vs \<Longrightarrow> findVerbs 0 s = vs"
proof (induction rule: allVerbs.induct)
  case (no_verb s)
  then show ?case by (rule findVerbs_none)
next
  case (next_verb t a b ts)
  show ?case using findVerbs_leftmost [OF next_verb(1) next_verb(2)] next_verb(4) by simp
qed
lemma token_chars:
  assumes "verbToken (CHR ''%'' # m)"
  shows "\<forall>c \<in> set m. isFlag c \<or> isDigit c \<or> c = CHR ''.'' \<or> isVerb c"
proof -
  from assms obtain fl wd dt pr v where
    e: "CHR ''%'' # m = CHR ''%'' # fl @ wd @ dt @ pr @ [v]" and
    h: "list_all isFlag fl" "list_all isDigit wd" "dt = [] \<or> dt = ''.''" "list_all isDigit pr" "isVerb v"
    unfolding verbToken_def by blast
  have m: "m = fl @ wd @ dt @ pr @ [v]" using e by simp
  show ?thesis using h unfolding m by (auto simp add: list_all_iff)
qed

lemma matchVerb_append:
  assumes "\<forall>c \<in> set qs. \<not> (isFlag c \<or> isDigit c \<or> c = CHR ''.'' \<or> isVerb c)"
  shows "matchVerb (cs @ qs) = matchVerb cs"
proof (cases "matchVerb cs")
  case (Some m)
  from matchVerb_sound [OF Some] obtain r where t: "verbToken (CHR ''%'' # m)" and r: "cs = m @ r"
    by blast
  have "(CHR ''%'' # m) @ (r @ qs) = CHR ''%'' # (cs @ qs)" using r by simp
  from token_prefix [OF t this] have "matchVerb (cs @ qs) = Some m" by auto
  then show ?thesis using Some by simp
next
  case None
  have "matchVerb (cs @ qs) = None"
  proof (cases "matchVerb (cs @ qs)")
    case None
    then show ?thesis .
  next
    case (Some m)
    from matchVerb_sound [OF Some] obtain r where t: "verbToken (CHR ''%'' # m)" and r: "cs @ qs = m @ r"
      by blast
    have "\<exists>r'. cs = m @ r'"
    proof -
      from r consider us where "cs = m @ us" | us where "cs @ us = m" "qs = us @ r"
        by (auto simp add: append_eq_append_conv2)
      then show ?thesis
      proof cases
        case 1
        then show ?thesis by blast
      next
        case 2
        show ?thesis
        proof (cases us)
          case Nil
          then show ?thesis using 2 by simp
        next
          case (Cons x xs)
          then have "x \<in> set m" "x \<in> set qs" using 2 by auto
          then show ?thesis using token_chars [OF t] assms by blast
        qed
      qed
    qed
    then obtain r' where r': "cs = m @ r'" by blast
    have "(CHR ''%'' # m) @ r' = CHR ''%'' # cs" using r' by simp
    from token_prefix [OF t this] have "matchVerb cs = Some m" by auto
    then show ?thesis using None by simp
  qed
  then show ?thesis using None by simp
qed

lemma findVerbs_plain: "\<forall>c \<in> set qs. c \<noteq> CHR ''%'' \<Longrightarrow> findVerbs 0 qs = []"
  by (induction qs) simp_all

lemma findVerbs_append:
  assumes "\<forall>c \<in> set qs. \<not> (isFlag c \<or> isDigit c \<or> c = CHR ''.'' \<or> isVerb c) \<and> c \<noteq> CHR ''%''"
  shows "findVerbs 0 (s @ qs) = findVerbs 0 s"
proof (induction s rule: length_induct)
  case (1 s)
  have q: "\<forall>c \<in> set qs. \<not> (isFlag c \<or> isDigit c \<or> c = CHR ''.'' \<or> isVerb c)" using assms by blast
  show ?case
  proof (cases s)
    case Nil
    then show ?thesis using findVerbs_plain [of qs] assms by simp
  next
    case (Cons c cs)
    note ma = matchVerb_append [OF q, of cs]
    show ?thesis
    proof (cases "c = CHR ''%'' \<and> (\<exists>m. matchVerb cs = Some m)")
      case True
      then obtain m where c: "c = CHR ''%''" and m: "matchVerb cs = Some m" by blast
      from matchVerb_sound [OF m] obtain r where r: "cs = m @ r" by blast
      have m1: "matchVerb (m @ r) = Some m" using m r by simp
      have m2: "matchVerb (m @ (r @ qs)) = Some m" using ma m r by simp
      have "length r < length s" using Cons r by simp
      then have ih: "findVerbs 0 (r @ qs) = findVerbs 0 r" using 1 by blast
      have "findVerbs 0 (CHR ''%'' # m @ (r @ qs)) = (CHR ''%'' # m) # findVerbs 0 (r @ qs)"
        using m2 by (rule findVerbs_match)
      moreover have "findVerbs 0 (CHR ''%'' # m @ r) = (CHR ''%'' # m) # findVerbs 0 r"
        using m1 by (rule findVerbs_match)
      ultimately have "findVerbs 0 (CHR ''%'' # m @ (r @ qs)) = findVerbs 0 (CHR ''%'' # m @ r)"
        using ih by simp
      then show ?thesis using Cons c r by simp
    next
      case False
      then have n: "\<not> (c = CHR ''%'' \<and> (\<exists>m. matchVerb (cs @ qs) = Some m))" using ma by simp
      have "length cs < length s" using Cons by simp
      then have ih: "findVerbs 0 (cs @ qs) = findVerbs 0 cs" using 1 by blast
      have "findVerbs 0 (c # cs @ qs) = findVerbs 0 (cs @ qs)" using n by (rule findVerbs_no_match)
      moreover have "findVerbs 0 (c # cs) = findVerbs 0 cs" using False by (rule findVerbs_no_match)
      ultimately show ?thesis using ih Cons by simp
    qed
  qed
qed

lemma findVerbs_dropWhile:
  "(\<And>c. P c \<Longrightarrow> c \<noteq> CHR ''%'') \<Longrightarrow> findVerbs 0 (dropWhile P s) = findVerbs 0 s"
proof (induction s)
  case Nil
  then show ?case by simp
next
  case (Cons c cs)
  show ?case
  proof (cases "P c")
    case True
    then have "c \<noteq> CHR ''%''" by (rule Cons.prems)
    then show ?thesis using True Cons.IH [OF Cons.prems] by simp
  next
    case False
    then show ?thesis by simp
  qed
qed

lemma rev_dropWhile_split: "s = rev (dropWhile P (rev s)) @ rev (takeWhile P (rev s))"
  by (metis rev_append rev_rev_ident takeWhile_dropWhile_id)

lemma quote_plain:
  \<open>c \<in> set ''"'`'' \<Longrightarrow>
   \<not> (isFlag c \<or> isDigit c \<or> c = CHR ''.'' \<or> isVerb c) \<and> c \<noteq> CHR ''%''\<close>
  by (auto simp add: isFlag_def isDigit_def isVerb_def)

lemma extractFormatVerbs_literal: "extractFormatVerbs lit = findVerbs 0 lit"
proof -
  let ?Q = \<open>\<lambda>c. c \<in> set ''"'`''\<close>
  define s1 where "s1 = dropWhile ?Q lit"
  define qs where "qs = rev (takeWhile ?Q (rev s1))"
  have s: "s1 = rev (dropWhile ?Q (rev s1)) @ qs"
    unfolding qs_def by (rule rev_dropWhile_split)
  have "\<forall>c \<in> set qs. ?Q c" unfolding qs_def set_rev using set_takeWhileD by fast
  then have q: "\<forall>c \<in> set qs. \<not> (isFlag c \<or> isDigit c \<or> c = CHR ''.'' \<or> isVerb c) \<and> c \<noteq> CHR ''%''"
    using quote_plain by blast
  have "findVerbs 0 (rev (dropWhile ?Q (rev s1)) @ qs) = findVerbs 0 (rev (dropWhile ?Q (rev s1)))"
    using q by (rule findVerbs_append)
  then have a: "findVerbs 0 (rev (dropWhile ?Q (rev s1))) = findVerbs 0 s1" using s by simp
  have b: "findVerbs 0 s1 = findVerbs 0 lit"
    unfolding s1_def by (rule findVerbs_dropWhile) (simp add: quote_plain)
  have "extractFormatVerbs lit = findVerbs 0 (rev (dropWhile ?Q (rev s1)))"
    by (simp add: extractFormatVerbs_def Trim_def s1_def)
  then show ?thesis using a b by simp
qed
section \<open>The claims\<close>






text \<open>
  C3, as the specification states it: a style outside the known set makes the run fail.
  It does not: with the style \<open>bogus\<close> the run over the small project returns no error;
  it has printed one warning for each of the two entries.
\<close>

theorem unknown_style_run_succeeds:
  "Style \<lparr>Style = ''bogus'', LoggerVar = ''log'', Template = []\<rparr> \<notin> set knownStyles \<and>
   loadTemplateConfig demoEnv ''bogus.json'' = Inr \<lparr>Style = ''bogus'', LoggerVar = ''log'', Template = []\<rparr> \<and>
   fst (Transform demoEnv id ''logs.csv'' ''.'' False ''bogus.json'' True demoWorld) = None \<and>
   stderr (snd (Transform demoEnv id ''logs.csv'' ''.'' False ''bogus.json'' True demoWorld)) =
     [''Warning: failed to generate code for LOG-0001: unknown style: bogus'',
      ''Warning: failed to generate code for LOG-0002: unknown style: bogus'']"
  by code_simp

text \<open>
  C3, amended. With a style outside the known set the generator fails for every entry
  with the error \<open>unknown style\<close>, and the run changes the content of no file. A run
  that loads its configuration and its catalog and has updates to apply visits the
  files in its order up to the first one that cannot be read or parsed: it returns the
  error of that file, or no error when there is none, prints nothing on the standard
  output, and prints on the standard error, for each file it has visited and each call
  of the file whose position has an update, the warning
  \<open>Warning: failed to generate code for\<close>, the identifier of the update and
  \<open>unknown style\<close> with the style. For one file that can be read and parsed,
  \<open>transformFile\<close> returns no error, leaves the files as they are, prints no change and
  prints those warnings.
\<close>

theorem unknown_style_changes_nothing:
  assumes "Style config \<notin> set knownStyles"
  shows "generateStructuredLogCall env u config autoMap = Inl (''unknown style: '' @ Style config) \<and>
    (loadTemplateConfig env configFile = Inr config \<longrightarrow>
       files (snd (Transform env order csvFile rootPath dryRun configFile autoMap w)) = files w) \<and>
    (loadTemplateConfig env configFile = Inr config \<longrightarrow>
     loadUpdates env csvFile w = (Inr updates, w1) \<longrightarrow> groupUpdates updates \<noteq> [] \<longrightarrow>
       fst (Transform env order csvFile rootPath dryRun configFile autoMap w) =
         runError env (files w) (order (groupUpdates updates)) \<and>
       stdout (snd (Transform env order csvFile rootPath dryRun configFile autoMap w)) = stdout w \<and>
       stderr (snd (Transform env order csvFile rootPath dryRun configFile autoMap w)) =
         stderr w1 @
         concat (map (\<lambda>fu. failureWarnings (''unknown style: '' @ Style config)
                              (buildUpdateMap (snd fu)) (fileCalls env (files w) (fst fu)))
                   (visited env (files w) (order (groupUpdates updates))))) \<and>
    (files w filePath = Some c \<longrightarrow> parseGo env filePath c = Inr node \<longrightarrow>
       fst (transformFile env filePath us config dryRun autoMap w) = None \<and>
       files (snd (transformFile env filePath us config dryRun autoMap w)) = files w \<and>
       stdout (snd (transformFile env filePath us config dryRun autoMap w)) = stdout w \<and>
       stderr (snd (transformFile env filePath us config dryRun autoMap w)) =
         stderr w @ failureWarnings (''unknown style: '' @ Style config) (buildUpdateMap us) (Calls node))"
proof -
  have gen: "\<And>u. generateStructuredLogCall env u config autoMap = Inl (''unknown style: '' @ Style config)"
    using assms by (simp add: generateStructuredLogCall_def knownStyles_def Let_def)
  then have ex: "\<And>u. \<exists>e. generateStructuredLogCall env u config autoMap = Inl e" by blast
  have run: "loadTemplateConfig env configFile = Inr config \<longrightarrow>
       files (snd (Transform env order csvFile rootPath dryRun configFile autoMap w)) = files w"
  proof
    assume l: "loadTemplateConfig env configFile = Inr config"
    show "files (snd (Transform env order csvFile rootPath dryRun configFile autoMap w)) = files w"
    proof (rule Transform_files)
      fix cfg p us w'
      assume "loadTemplateConfig env configFile = Inr cfg"
      then have "cfg = config" using l by simp
      then show "files (snd (transformFile env p us cfg dryRun autoMap w')) = files w'"
        using transformFile_files_nogen [of env config autoMap p us dryRun w'] ex by simp
    qed
  qed
  have out: "loadTemplateConfig env configFile = Inr config \<longrightarrow>
     loadUpdates env csvFile w = (Inr updates, w1) \<longrightarrow> groupUpdates updates \<noteq> [] \<longrightarrow>
       fst (Transform env order csvFile rootPath dryRun configFile autoMap w) =
         runError env (files w) (order (groupUpdates updates)) \<and>
       stdout (snd (Transform env order csvFile rootPath dryRun configFile autoMap w)) = stdout w \<and>
       stderr (snd (Transform env order csvFile rootPath dryRun configFile autoMap w)) =
         stderr w1 @
         concat (map (\<lambda>fu. failureWarnings (''unknown style: '' @ Style config)
                              (buildUpdateMap (snd fu)) (fileCalls env (files w) (fst fu)))
                   (visited env (files w) (order (groupUpdates updates))))"
  proof (intro impI)
    assume h: "loadTemplateConfig env configFile = Inr config"
      "loadUpdates env csvFile w = (Inr updates, w1)" "groupUpdates updates \<noteq> []"
    from Transform_nogen [OF h gen, of order rootPath dryRun]
    show "fst (Transform env order csvFile rootPath dryRun configFile autoMap w) =
         runError env (files w) (order (groupUpdates updates)) \<and>
       stdout (snd (Transform env order csvFile rootPath dryRun configFile autoMap w)) = stdout w \<and>
       stderr (snd (Transform env order csvFile rootPath dryRun configFile autoMap w)) =
         stderr w1 @
         concat (map (\<lambda>fu. failureWarnings (''unknown style: '' @ Style config)
                              (buildUpdateMap (snd fu)) (fileCalls env (files w) (fst fu)))
                   (visited env (files w) (order (groupUpdates updates))))"
      by blast
  qed
  have one: "files w filePath = Some c \<longrightarrow> parseGo env filePath c = Inr node \<longrightarrow>
       fst (transformFile env filePath us config dryRun autoMap w) = None \<and>
       files (snd (transformFile env filePath us config dryRun autoMap w)) = files w \<and>
       stdout (snd (transformFile env filePath us config dryRun autoMap w)) = stdout w \<and>
       stderr (snd (transformFile env filePath us config dryRun autoMap w)) =
         stderr w @ failureWarnings (''unknown style: '' @ Style config) (buildUpdateMap us) (Calls node)"
  proof (intro impI)
    assume h: "files w filePath = Some c" "parseGo env filePath c = Inr node"
    from transformFile_nogen [OF h gen, of us dryRun]
    show "fst (transformFile env filePath us config dryRun autoMap w) = None \<and>
       files (snd (transformFile env filePath us config dryRun autoMap w)) = files w \<and>
       stdout (snd (transformFile env filePath us config dryRun autoMap w)) = stdout w \<and>
       stderr (snd (transformFile env filePath us config dryRun autoMap w)) =
         stderr w @ failureWarnings (''unknown style: '' @ Style config) (buildUpdateMap us) (Calls node)"
      by blast
  qed
  show ?thesis using gen run out one by blast
qed

theorem unknown_style_changes_nothing_witness:
  "generateStructuredLogCall demoEnv demoUpdate \<lparr>Style = ''bogus'', LoggerVar = ''log'', Template = []\<rparr> True =
     Inl ''unknown style: bogus'' \<and>
   files (snd (Transform demoEnv rev ''two.csv'' ''.'' False ''bogus.json'' True demoWorld)) = files demoWorld \<and>
   fst (Transform demoEnv rev ''two.csv'' ''.'' False ''bogus.json'' True demoWorld) =
     Some (Err ''failed to transform missing.go: open missing.go: no such file or directory'') \<and>
   stdout (snd (Transform demoEnv rev ''two.csv'' ''.'' False ''bogus.json'' True demoWorld)) = [] \<and>
   stderr (snd (Transform demoEnv rev ''two.csv'' ''.'' False ''bogus.json'' True demoWorld)) =
     [''Warning: failed to generate code for LOG-0002: unknown style: bogus'',
      ''Warning: failed to generate code for LOG-0003: unknown style: bogus''] \<and>
   fst (transformFile demoEnv ''a.go'' (snd (loadRows 1 (tl demoCatalog)))
          \<lparr>Style = ''bogus'', LoggerVar = ''log'', Template = []\<rparr> False True demoWorld) = None \<and>
   stdout (snd (transformFile demoEnv ''a.go'' (snd (loadRows 1 (tl demoCatalog)))
          \<lparr>Style = ''bogus'', LoggerVar = ''log'', Template = []\<rparr> False True demoWorld)) = [] \<and>
   stderr (snd (transformFile demoEnv ''a.go'' (snd (loadRows 1 (tl demoCatalog)))
          \<lparr>Style = ''bogus'', LoggerVar = ''log'', Template = []\<rparr> False True demoWorld)) =
     [''Warning: failed to generate code for LOG-0001: unknown style: bogus'',
      ''Warning: failed to generate code for LOG-0002: unknown style: bogus'']"
proof -
  let ?cfg = "\<lparr>Style = ''bogus'', LoggerVar = ''log'', Template = []\<rparr>"
  let ?node = "\<lparr>PackageName = ''p'', Calls = demoCalls\<rparr>"
  let ?us = "snd (loadRows 1 (tl demoCatalog))"
  let ?ups = "snd (loadRows 1 (tl twoCatalog))"
  let ?w1 = "snd (loadUpdates demoEnv ''two.csv'' demoWorld)"
  let ?T = "Transform demoEnv rev ''two.csv'' ''.'' False ''bogus.json'' True demoWorld"
  let ?F = "transformFile demoEnv ''a.go'' ?us ?cfg False True demoWorld"
  have h0: "Style ?cfg \<notin> set knownStyles" by (simp add: knownStyles_def)
  have h1: "loadTemplateConfig demoEnv ''bogus.json'' = Inr ?cfg"
    by (simp add: loadTemplateConfig_def demoEnv_def)
  have h2: "files demoWorld ''a.go'' = Some demoSource" by (simp add: demoWorld_def)
  have h3: "parseGo demoEnv ''a.go'' demoSource = Inr ?node" by (simp add: demoEnv_def)
  have "fst (loadUpdates demoEnv ''two.csv'' demoWorld) = Inr ?ups" by code_simp
  then have h4: "loadUpdates demoEnv ''two.csv'' demoWorld = (Inr ?ups, ?w1)"
    by (metis prod.collapse)
  have h5: "groupUpdates ?ups \<noteq> []" by code_simp
  note t = unknown_style_changes_nothing [OF h0, where env = demoEnv and u = demoUpdate
      and autoMap = True and configFile = "''bogus.json''" and order = rev
      and csvFile = "''two.csv''" and rootPath = "''.''" and dryRun = False and w = demoWorld
      and updates = ?ups and ?w1.0 = ?w1 and filePath = "''a.go''" and c = demoSource
      and node = ?node and us = ?us]
  have s: "Style ?cfg = ''bogus''" by simp
  have a: "generateStructuredLogCall demoEnv demoUpdate ?cfg True = Inl ''unknown style: bogus''"
    using t by simp
  have b: "files (snd ?T) = files demoWorld" using t h1 by blast
  have r1: "fst ?T = runError demoEnv (files demoWorld) (rev (groupUpdates ?ups))"
    using t h1 h4 h5 by blast
  have r2: "stdout (snd ?T) = stdout demoWorld" using t h1 h4 h5 by blast
  have r3: "stderr (snd ?T) = stderr ?w1 @
         concat (map (\<lambda>fu. failureWarnings (''unknown style: '' @ Style ?cfg)
                              (buildUpdateMap (snd fu)) (fileCalls demoEnv (files demoWorld) (fst fu)))
                   (visited demoEnv (files demoWorld) (rev (groupUpdates ?ups))))"
    using t h1 h4 h5 by blast
  have e1: \<open>runError demoEnv (files demoWorld) (rev (groupUpdates ?ups)) =
      Some (Err ''failed to transform missing.go: open missing.go: no such file or directory'')\<close>
    by code_simp
  have e2: "stdout demoWorld = []" by code_simp
  have e3: "stderr ?w1 @
         concat (map (\<lambda>fu. failureWarnings (''unknown style: '' @ Style ?cfg)
                              (buildUpdateMap (snd fu)) (fileCalls demoEnv (files demoWorld) (fst fu)))
                   (visited demoEnv (files demoWorld) (rev (groupUpdates ?ups)))) =
     [''Warning: failed to generate code for LOG-0002: unknown style: bogus'',
      ''Warning: failed to generate code for LOG-0003: unknown style: bogus'']"
    by code_simp
  have f1: "fst ?F = None" using t h2 h3 by blast
  have f2: "stdout (snd ?F) = stdout demoWorld" using t h2 h3 by blast
  have f3: "stderr (snd ?F) =
      stderr demoWorld @ failureWarnings (''unknown style: '' @ Style ?cfg) (buildUpdateMap ?us) (Calls ?node)"
    using t h2 h3 by blast
  have e4: "stderr demoWorld @ failureWarnings (''unknown style: '' @ Style ?cfg) (buildUpdateMap ?us) (Calls ?node) =
     [''Warning: failed to generate code for LOG-0001: unknown style: bogus'',
      ''Warning: failed to generate code for LOG-0002: unknown style: bogus'']"
    by code_simp
  show ?thesis
    by (intro conjI) (rule a, rule b, rule trans [OF r1 e1], rule trans [OF r2 e2],
      rule trans [OF r3 e3], rule f1, rule trans [OF f2 e2], rule trans [OF f3 e4])
qed

text \<open>
  C4. A row whose \<open>NewMessage\<close> and \<open>NewCall\<close> are both empty, or both equal to the
  original message template and callee, is in no list of updates that \<open>Transform\<close>
  hands to \<open>transformFile\<close>. So when the catalog is what \<open>Collect\<close> has exported,
  unedited, a run changes the content of no file (and does not panic).
\<close>

theorem noop_rows_are_excluded:
  "((NewMessage u = [] \<and> NewCall u = []) \<or>
    (NewMessage u = MessageTemplate u \<and> NewCall u = OriginalCall u) \<longrightarrow>
      (\<forall>(path, us) \<in> set (groupUpdates updates). u \<notin> set us)) \<and>
   (Collect env paths pattern w0 = (Inr records, w1) \<longrightarrow> readCSV env csvFile = Inr records \<longrightarrow>
      files (snd (Transform env order csvFile rootPath dryRun configFile autoMap w)) = files w \<and>
      fst (Transform env order csvFile rootPath dryRun configFile autoMap w) \<noteq> Some Panic)"
proof -
  have a: "(NewMessage u = [] \<and> NewCall u = []) \<or>
    (NewMessage u = MessageTemplate u \<and> NewCall u = OriginalCall u) \<longrightarrow>
      (\<forall>(path, us) \<in> set (groupUpdates updates). u \<notin> set us)"
    using groupUpdates_kept [of _ _ updates u] by (auto simp add: skipUpdate_def)
  have b: "Collect env paths pattern w0 = (Inr records, w1) \<longrightarrow> readCSV env csvFile = Inr records \<longrightarrow>
      files (snd (Transform env order csvFile rootPath dryRun configFile autoMap w)) = files w \<and>
      fst (Transform env order csvFile rootPath dryRun configFile autoMap w) \<noteq> Some Panic"
  proof (intro impI)
    assume c: "Collect env paths pattern w0 = (Inr records, w1)" and r: "readCSV env csvFile = Inr records"
    from Collect_blank [OF c] obtain es where
      es: "records = header # map entryRow es" "\<forall>e \<in> set es. entNewCall e = [] \<and> entNewMessage e = []"
      by blast
    show "files (snd (Transform env order csvFile rootPath dryRun configFile autoMap w)) = files w \<and>
      fst (Transform env order csvFile rootPath dryRun configFile autoMap w) \<noteq> Some Panic"
      using Transform_unedited [of env csvFile es] r es by simp
  qed
  show ?thesis using a b by blast
qed

theorem noop_rows_are_excluded_witness:
  "groupUpdates [demoUpdate\<lparr>NewMessage := []\<rparr>, demoUpdate] = [(''a.go'', [demoUpdate])] \<and>
   demoUpdate\<lparr>NewMessage := []\<rparr> \<notin> set [demoUpdate] \<and>
   files (snd (Transform scanEnv id ''logs.csv'' ''.'' False [] True demoWorld)) = files demoWorld \<and>
   fst (Transform scanEnv id ''logs.csv'' ''.'' False [] True demoWorld) = None \<and>
   stdout (snd (Transform scanEnv id ''logs.csv'' ''.'' False [] True demoWorld)) = [''No updates to apply'']"
proof -
  let ?n = "demoUpdate\<lparr>NewMessage := []\<rparr>"
  have g: "groupUpdates [?n, demoUpdate] = [(''a.go'', [demoUpdate])]" by code_simp
  have h0: "NewMessage ?n = [] \<and> NewCall ?n = []" by code_simp
  let ?records = "[header,
      [''LOG-0001'', ''a.go'', ''2'', ''12'', ''p'', ''log.Println'', ''Info'',
       [CHR 0x22, CHR ''a'', CHR 0x22], ''0'', [], [], [], [], []],
      [''LOG-0002'', ''a.go'', ''2'', ''30'', ''p'', ''log.Println'', ''Info'',
       [CHR 0x22, CHR ''b'', CHR 0x22], ''0'', [], [], [], [], []]]"
  let ?w1 = "snd (Collect scanEnv [''a.go''] ''log[.]'' demoWorld)"
  have f: "fst (Collect demoEnv [''a.go''] ''log[.]'' demoWorld) = Inr ?records" by code_simp
  have f': "fst (Collect scanEnv [''a.go''] ''log[.]'' demoWorld) = Inr ?records" by code_simp
  then have c: "Collect scanEnv [''a.go''] ''log[.]'' demoWorld = (Inr ?records, ?w1)"
    by (metis prod.collapse)
  have r: "readCSV scanEnv ''logs.csv'' = Inr ?records" using f by (simp add: scanEnv_def)
  note t = noop_rows_are_excluded [where u = ?n and updates = "[?n, demoUpdate]" and env = scanEnv
      and paths = "[''a.go'']" and pattern = "''log[.]''" and ?w0.0 = demoWorld and records = ?records
      and ?w1.0 = ?w1 and csvFile = "''logs.csv''" and order = id and rootPath = "''.''"
      and dryRun = False and configFile = "[]" and autoMap = True and w = demoWorld]
  have a: "\<forall>(path, us) \<in> set (groupUpdates [?n, demoUpdate]). ?n \<notin> set us"
    using t h0 by blast
  have b: "files (snd (Transform scanEnv id ''logs.csv'' ''.'' False [] True demoWorld)) = files demoWorld"
    using t c r by blast
  have d: "fst (Transform scanEnv id ''logs.csv'' ''.'' False [] True demoWorld) = None" by code_simp
  have e: "stdout (snd (Transform scanEnv id ''logs.csv'' ''.'' False [] True demoWorld)) = [''No updates to apply'']"
    by code_simp
  show ?thesis using a b d e g by simp
qed

text \<open>
  C5. A format verb is a word of the pattern: a \<open>%\<close>, flags among \<open>-+# 0\<close>, the digits
  of a width, at most one dot, the digits of a precision, and a verb letter. The verbs
  of a literal, from left to right, are the leftmost word of the pattern in the
  literal, then the verbs of the text that follows that word. The analyzer finds
  exactly these verbs in a literal. For a call whose first argument is a string literal
  with the verbs \<open>vs\<close>, \<open>k\<close> in number, followed by \<open>m\<close> further arguments, the analyzer
  returns the literal as the message and \<open>m\<close> candidates; the candidate at position
  \<open>j\<close> has the index \<open>j\<close>, the rendered text and the inferred type of the argument at
  position \<open>j\<close>, and as its verb the verb at position \<open>j\<close> of \<open>vs\<close> when there is
  one and the empty string otherwise, whatever the verb and the type are; so at most
  \<open>min k m\<close> candidates have a verb.
\<close>

theorem verbs_pair_by_position:
  "allVerbs lit (extractFormatVerbs lit) \<and>
   (allVerbs lit vs \<longrightarrow>
      extractFormatVerbs lit = vs \<and>
      fst (extractLogDetails (BasicLit tokSTRING lit # rest)) = lit \<and>
      length (snd (extractLogDetails (BasicLit tokSTRING lit # rest))) = length rest \<and>
      (\<forall>j < length rest.
         argIndex (snd (extractLogDetails (BasicLit tokSTRING lit # rest)) ! j) = int j \<and>
         argExpression (snd (extractLogDetails (BasicLit tokSTRING lit # rest)) ! j) = formatExpr (rest ! j) \<and>
         argType (snd (extractLogDetails (BasicLit tokSTRING lit # rest)) ! j) = inferType (rest ! j) \<and>
         argFormatVerb (snd (extractLogDetails (BasicLit tokSTRING lit # rest)) ! j) =
           (if j < length vs then vs ! j else [])) \<and>
      length (filter (\<lambda>a. argFormatVerb a \<noteq> []) (snd (extractLogDetails (BasicLit tokSTRING lit # rest))))
        \<le> min (length vs) (length rest))"
proof -
  have a0: "allVerbs lit (extractFormatVerbs lit)"
    unfolding extractFormatVerbs_literal by (rule findVerbs_allVerbs)
  have imp: "allVerbs lit vs \<longrightarrow>
      extractFormatVerbs lit = vs \<and>
      fst (extractLogDetails (BasicLit tokSTRING lit # rest)) = lit \<and>
      length (snd (extractLogDetails (BasicLit tokSTRING lit # rest))) = length rest \<and>
      (\<forall>j < length rest.
         argIndex (snd (extractLogDetails (BasicLit tokSTRING lit # rest)) ! j) = int j \<and>
         argExpression (snd (extractLogDetails (BasicLit tokSTRING lit # rest)) ! j) = formatExpr (rest ! j) \<and>
         argType (snd (extractLogDetails (BasicLit tokSTRING lit # rest)) ! j) = inferType (rest ! j) \<and>
         argFormatVerb (snd (extractLogDetails (BasicLit tokSTRING lit # rest)) ! j) =
           (if j < length vs then vs ! j else [])) \<and>
      length (filter (\<lambda>a. argFormatVerb a \<noteq> []) (snd (extractLogDetails (BasicLit tokSTRING lit # rest))))
        \<le> min (length vs) (length rest)"
  proof
    assume "allVerbs lit vs"
    then have "findVerbs 0 lit = vs" by (rule allVerbs_findVerbs)
    then have v: "extractFormatVerbs lit = vs" by (simp add: extractFormatVerbs_literal)
    let ?as = "processArgs vs 1 rest"
    have e: "extractLogDetails (BasicLit tokSTRING lit # rest) = (lit, ?as)" using v by simp
    have a: "length ?as = length rest" by (rule length_processArgs)
    have b: "\<forall>j < length rest.
        argIndex (?as ! j) = int j \<and> argExpression (?as ! j) = formatExpr (rest ! j) \<and>
        argType (?as ! j) = inferType (rest ! j) \<and>
        argFormatVerb (?as ! j) = (if j < length vs then vs ! j else [])"
      using nth_processArgs [of 1 _ rest vs] by simp
    have "length (filter (\<lambda>a. argFormatVerb a \<noteq> []) ?as) \<le> length vs"
      using verbs_processArgs [of 1 vs rest] by simp
    moreover have "length (filter (\<lambda>a. argFormatVerb a \<noteq> []) ?as) \<le> length rest"
      using length_filter_le [of _ ?as] a by simp
    ultimately have c: "length (filter (\<lambda>a. argFormatVerb a \<noteq> []) ?as) \<le> min (length vs) (length rest)"
      by simp
    show "extractFormatVerbs lit = vs \<and>
      fst (extractLogDetails (BasicLit tokSTRING lit # rest)) = lit \<and>
      length (snd (extractLogDetails (BasicLit tokSTRING lit # rest))) = length rest \<and>
      (\<forall>j < length rest.
         argIndex (snd (extractLogDetails (BasicLit tokSTRING lit # rest)) ! j) = int j \<and>
         argExpression (snd (extractLogDetails (BasicLit tokSTRING lit # rest)) ! j) = formatExpr (rest ! j) \<and>
         argType (snd (extractLogDetails (BasicLit tokSTRING lit # rest)) ! j) = inferType (rest ! j) \<and>
         argFormatVerb (snd (extractLogDetails (BasicLit tokSTRING lit # rest)) ! j) =
           (if j < length vs then vs ! j else [])) \<and>
      length (filter (\<lambda>a. argFormatVerb a \<noteq> []) (snd (extractLogDetails (BasicLit tokSTRING lit # rest))))
        \<le> min (length vs) (length rest)"
      unfolding e using v a b c by simp
  qed
  show ?thesis using a0 imp by (rule conjI)
qed

theorem verbs_pair_by_position_witness:
  "allVerbs widthLit [''%5d'', ''%-8.2f'', ''%s''] \<and>
   extractFormatVerbs widthLit = [''%5d'', ''%-8.2f'', ''%s''] \<and>
   length widthRest = 4 \<and>
   map argFormatVerb (snd (extractLogDetails (BasicLit tokSTRING widthLit # widthRest))) =
     [''%5d'', ''%-8.2f'', ''%s'', []] \<and>
   argIndex (snd (extractLogDetails (BasicLit tokSTRING widthLit # widthRest)) ! 1) = 1 \<and>
   argFormatVerb (snd (extractLogDetails (BasicLit tokSTRING widthLit # widthRest)) ! 1) = ''%-8.2f'' \<and>
   length (filter (\<lambda>a. argFormatVerb a \<noteq> [])
     (snd (extractLogDetails (BasicLit tokSTRING widthLit # widthRest)))) \<le> 3"
proof -
  let ?as = "snd (extractLogDetails (BasicLit tokSTRING widthLit # widthRest))"
  let ?vs = "[''%5d'', ''%-8.2f'', ''%s'']"
  have v: "extractFormatVerbs widthLit = ?vs" by code_simp
  have l: "length widthRest = 4" by code_simp
  have m: "map argFormatVerb ?as = [''%5d'', ''%-8.2f'', ''%s'', []]" by code_simp
  note t = verbs_pair_by_position [of widthLit ?vs widthRest]
  have av: "allVerbs widthLit ?vs" using t [THEN conjunct1] by (simp only: v)
  note B = t [THEN conjunct2, THEN mp, OF av]
  note t3 = B [THEN conjunct2, THEN conjunct2, THEN conjunct2, THEN conjunct1, rule_format, of 1]
  note t4 = B [THEN conjunct2, THEN conjunct2, THEN conjunct2, THEN conjunct2]
  have j: "(1::nat) < length widthRest" using l by simp
  have a1: "argIndex (?as ! 1) = 1" using t3 [OF j, THEN conjunct1] by (simp only: of_nat_1)
  have "argFormatVerb (?as ! 1) = (if 1 < length ?vs then ?vs ! 1 else [])"
    using t3 [OF j, THEN conjunct2, THEN conjunct2, THEN conjunct2] .
  moreover have "(if 1 < length ?vs then ?vs ! 1 else []) = ''%-8.2f''" by simp
  ultimately have a2: "argFormatVerb (?as ! 1) = ''%-8.2f''" by (rule trans)
  have "length (filter (\<lambda>a. argFormatVerb a \<noteq> []) ?as) \<le> min (length ?vs) 4"
    using t4 by (simp only: l)
  moreover have "min (length ?vs) 4 = (3::nat)" by simp
  ultimately have b: "length (filter (\<lambda>a. argFormatVerb a \<noteq> []) ?as) \<le> 3" by (rule ord_le_eq_trans)
  show ?thesis
    by (intro conjI) (rule av, rule v, rule l, rule m, rule a1, rule a2, rule b)
qed

text \<open>
  C8, as the specification states it: for \<^verbatim>\<open>log.Printf("error: %v", err)\<close> with the new
  message and no override, the key-argument style with the logger \<open>logger\<close> yields
  \<^verbatim>\<open>logger.Error("Failed to process request", Any("error", err))\<close>. It does not.
\<close>

theorem printf_error_is_not_generated_as_claimed:
  \<open>generateStructuredLogCall demoEnv errUpdate slogLogger True \<noteq>
     Inr ''logger.Error("Failed to process request", Any("error", err))''\<close>
  by code_simp

text \<open>
  C8, amended. For \<^verbatim>\<open>log.Printf("error: %v", err)\<close> the scan collects the callee
  \<open>log.Printf\<close>, the level \<open>Info\<close> (a print variant), the message template
  \<^verbatim>\<open>"error: %v"\<close> with its quotes, and exactly one candidate with the key \<open>error\<close>,
  the type \<open>error\<close>, the expression \<open>err\<close> and the verb \<open>%v\<close>; the catalog holds
  \<open>error(error)=err[%v]\<close> for it. With the new message, no override and auto-mapping,
  the key-argument style with the logger \<open>logger\<close> yields
  \<^verbatim>\<open>logger.info("Failed to process request", slog.Any("error", err))\<close>: the level in
  lower case, the field in the wrapper \<open>slog.Any\<close>.
\<close>

theorem printf_error_scan_and_generation:
  \<open>parseFile ''handler.go'' \<lparr>PackageName = ''main'', Calls = [errCall]\<rparr> defaultPattern 1 =
     ([\<lparr>entID = ''LOG-0001'', entFilePath = ''handler.go'', entLine = 12, entColumn = 2,
        entPackage = ''main'', entOriginalCall = ''log.Printf'', entLogLevel = ''Info'',
        entMessageTemplate = ''"error: %v"'',
        entArguments = [\<lparr>argIndex = 0, argExpression = ''err'', argVarName = ''err'',
                         argType = ''error'', argFormatVerb = ''%v'', argSuggestedKey = ''error''\<rparr>],
        entNewCall = [], entNewMessage = [], entStructuredFields = [], entNotes = []\<rparr>], 2) \<and>
   errRow =
     [''LOG-0001'', ''handler.go'', ''12'', ''2'', ''main'', ''log.Printf'', ''Info'', ''"error: %v"'',
      ''1'', ''error(error)=err[%v]'', [], ''Failed to process request'', [], []] \<and>
   loadRows 1 [errRow] = ([], [errUpdate]) \<and>
   resolveFields env errUpdate True = [\<lparr>Key = ''error'', Expression = ''err'', Type = ''error''\<rparr>] \<and>
   generateStructuredLogCall env errUpdate slogLogger True =
     Inr ''logger.info("Failed to process request", slog.Any("error", err))''\<close>
proof -
  have a: \<open>parseFile ''handler.go'' \<lparr>PackageName = ''main'', Calls = [errCall]\<rparr> defaultPattern 1 =
     ([\<lparr>entID = ''LOG-0001'', entFilePath = ''handler.go'', entLine = 12, entColumn = 2,
        entPackage = ''main'', entOriginalCall = ''log.Printf'', entLogLevel = ''Info'',
        entMessageTemplate = ''"error: %v"'',
        entArguments = [\<lparr>argIndex = 0, argExpression = ''err'', argVarName = ''err'',
                         argType = ''error'', argFormatVerb = ''%v'', argSuggestedKey = ''error''\<rparr>],
        entNewCall = [], entNewMessage = [], entStructuredFields = [], entNotes = []\<rparr>], 2)\<close>
    by code_simp
  have b: \<open>errRow =
     [''LOG-0001'', ''handler.go'', ''12'', ''2'', ''main'', ''log.Printf'', ''Info'', ''"error: %v"'',
      ''1'', ''error(error)=err[%v]'', [], ''Failed to process request'', [], []]\<close>
    by code_simp
  have c: "loadRows 1 [errRow] = ([], [errUpdate])" by code_simp
  have u: \<open>errUpdate =
     \<lparr>ID = ''LOG-0001'', FilePath = ''handler.go'', Line = 12, Column = 2,
      OriginalCall = ''log.Printf'', LogLevel = ''Info'', MessageTemplate = ''"error: %v"'',
      ArgumentDetails = ''error(error)=err[%v]'', NewCall = [],
      NewMessage = ''Failed to process request'', StructuredFields = []\<rparr>\<close>
    by code_simp
  have f: "autoGenerateFieldsFromArguments ''error(error)=err[%v]'' =
      [\<lparr>Key = ''error'', Expression = ''err'', Type = ''error''\<rparr>]"
    by code_simp
  have d: "resolveFields env errUpdate True = [\<lparr>Key = ''error'', Expression = ''err'', Type = ''error''\<rparr>]"
    unfolding u by (simp add: resolveFields_def f)
  have m: \<open>resolveMessage errUpdate = ''Failed to process request''\<close> by code_simp
  have g: \<open>generateSlogCall ''logger'' ''Info'' ''Failed to process request''
       [\<lparr>Key = ''error'', Expression = ''err'', Type = ''error''\<rparr>] =
     ''logger.info("Failed to process request", slog.Any("error", err))''\<close>
    by code_simp
  have l: "LogLevel errUpdate = ''Info''" unfolding u by simp
  have e: \<open>generateStructuredLogCall env errUpdate slogLogger True =
     Inr ''logger.info("Failed to process request", slog.Any("error", err))''\<close>
    by (simp add: generateStructuredLogCall_def slogLogger_def d m l g)
  show ?thesis by (intro conjI) (rule a, rule b, rule c, rule d, rule e)
qed

text \<open>
  C10, as the specification states it: a row of thirteen columns or more whose \<open>Line\<close>
  or \<open>Column\<close> cell is no decimal numeral is recorded with the line \<open>0\<close> and the
  column \<open>0\<close>. It is not when only one of the two cells is at fault: the row with the
  cells \<open>x\<close> and \<open>7\<close> is recorded with the line \<open>0\<close> and the column \<open>7\<close>.
\<close>

theorem bad_line_keeps_good_column:
  "length badRow = 14 \<and> isNumeral (badRow ! 2) = False \<and> isNumeral (badRow ! 3) = True \<and>
   fst (loadRows 1 [badRow]) = [] \<and>
   map Line (snd (loadRows 1 [badRow])) = [0] \<and>
   map Column (snd (loadRows 1 [badRow])) = [7]"
  by code_simp

text \<open>
  C10, amended. A row of thirteen columns or more is recorded without a warning, and a
  \<open>Line\<close> or \<open>Column\<close> cell that is no decimal numeral (an optional sign and digits)
  is recorded as \<open>0\<close>, each cell on its own. When one of the two is no numeral, the
  update of the row matches no call of a file whose call positions are all from line
  \<open>1\<close> and column \<open>1\<close> on: \<open>transformFile\<close> does with the row among the updates what
  it does without it, and with the row alone it changes the content of no file.
\<close>

theorem unparsable_position_never_matches:
  assumes "13 \<le> length row"
  shows "fst (loadRows i (row # rest)) = fst (loadRows (i + 1) rest) \<and>
    tl (snd (loadRows i (row # rest))) = snd (loadRows (i + 1) rest) \<and>
    Line (hd (snd (loadRows i (row # rest)))) = Atoi (row ! 2) \<and>
    Column (hd (snd (loadRows i (row # rest)))) = Atoi (row ! 3) \<and>
    (\<not> isNumeral (row ! 2) \<longrightarrow> Line (hd (snd (loadRows i (row # rest)))) = 0) \<and>
    (\<not> isNumeral (row ! 3) \<longrightarrow> Column (hd (snd (loadRows i (row # rest)))) = 0) \<and>
    (\<not> isNumeral (row ! 2) \<or> \<not> isNumeral (row ! 3) \<longrightarrow>
       files w p = Some c \<longrightarrow> parseGo env p c = Inr node \<longrightarrow>
       (\<forall>call \<in> set (Calls node). 1 \<le> fst (Pos call) \<and> 1 \<le> snd (Pos call)) \<longrightarrow>
       transformFile env p (us1 @ hd (snd (loadRows i (row # rest))) # us2) config dryRun autoMap w =
         transformFile env p (us1 @ us2) config dryRun autoMap w \<and>
       files (snd (transformFile env p [hd (snd (loadRows i (row # rest)))] config dryRun autoMap w)) =
         files w)"
proof -
  let ?u = "hd (snd (loadRows i (row # rest)))"
  have a: "fst (loadRows i (row # rest)) = fst (loadRows (i + 1) rest)"
    using assms by (simp add: split: prod.splits)
  have b: "tl (snd (loadRows i (row # rest))) = snd (loadRows (i + 1) rest)"
    using assms by (simp add: split: prod.splits)
  have l: "Line ?u = Atoi (row ! 2)" using assms by (simp add: split: prod.splits)
  have k: "Column ?u = Atoi (row ! 3)" using assms by (simp add: split: prod.splits)
  have l0: "\<not> isNumeral (row ! 2) \<longrightarrow> Line ?u = 0" using l by (simp add: Atoi_no_numeral)
  have k0: "\<not> isNumeral (row ! 3) \<longrightarrow> Column ?u = 0" using k by (simp add: Atoi_no_numeral)
  have m: "\<not> isNumeral (row ! 2) \<or> \<not> isNumeral (row ! 3) \<longrightarrow>
       files w p = Some c \<longrightarrow> parseGo env p c = Inr node \<longrightarrow>
       (\<forall>call \<in> set (Calls node). 1 \<le> fst (Pos call) \<and> 1 \<le> snd (Pos call)) \<longrightarrow>
       transformFile env p (us1 @ ?u # us2) config dryRun autoMap w =
         transformFile env p (us1 @ us2) config dryRun autoMap w \<and>
       files (snd (transformFile env p [?u] config dryRun autoMap w)) = files w"
  proof (intro impI)
    assume n: "\<not> isNumeral (row ! 2) \<or> \<not> isNumeral (row ! 3)"
      and f: "files w p = Some c" and g: "parseGo env p c = Inr node"
      and h: "\<forall>call \<in> set (Calls node). 1 \<le> fst (Pos call) \<and> 1 \<le> snd (Pos call)"
    have z: "Line ?u < 1 \<or> Column ?u < 1" using n l0 k0 by auto
    have t1: "transformFile env p (us1 @ ?u # us2) config dryRun autoMap w =
        transformFile env p (us1 @ us2) config dryRun autoMap w"
      by (rule transformFile_without [OF z f g h])
    have "transformFile env p ([] @ ?u # []) config dryRun autoMap w =
        transformFile env p ([] @ []) config dryRun autoMap w"
      by (rule transformFile_without [OF z f g h])
    then have t2: "files (snd (transformFile env p [?u] config dryRun autoMap w)) = files w"
      using transformFile_no_updates [of env p config dryRun autoMap w] by simp
    show "transformFile env p (us1 @ ?u # us2) config dryRun autoMap w =
         transformFile env p (us1 @ us2) config dryRun autoMap w \<and>
       files (snd (transformFile env p [?u] config dryRun autoMap w)) = files w"
      using t1 t2 by blast
  qed
  show ?thesis using a b l k l0 k0 m by blast
qed

theorem unparsable_position_never_matches_witness:
  "13 \<le> length badRow \<and> isNumeral (badRow ! 2) = False \<and>
   fst (loadRows 1 (badRow # tl (tl demoCatalog))) = [] \<and>
   Line (hd (snd (loadRows 1 (badRow # tl (tl demoCatalog))))) = 0 \<and>
   transformFile demoEnv ''a.go'' (hd (snd (loadRows 1 (badRow # tl (tl demoCatalog)))) # snd (loadRows 2 (tl (tl demoCatalog))))
       slogLogger False True demoWorld =
     transformFile demoEnv ''a.go'' (snd (loadRows 2 (tl (tl demoCatalog)))) slogLogger False True demoWorld \<and>
   files (snd (transformFile demoEnv ''a.go'' [hd (snd (loadRows 1 (badRow # tl (tl demoCatalog))))]
       slogLogger False True demoWorld)) = files demoWorld"
proof -
  let ?rest = "tl (tl demoCatalog)"
  let ?u = "hd (snd (loadRows 1 (badRow # ?rest)))"
  let ?node = "\<lparr>PackageName = ''p'', Calls = demoCalls\<rparr>"
  have h0: "13 \<le> length badRow" by code_simp
  have h1: "isNumeral (badRow ! 2) = False" by code_simp
  have h2: "files demoWorld ''a.go'' = Some demoSource" by (simp add: demoWorld_def)
  have h3: "parseGo demoEnv ''a.go'' demoSource = Inr ?node" by (simp add: demoEnv_def)
  have h4: "\<forall>call \<in> set (Calls ?node). 1 \<le> fst (Pos call) \<and> 1 \<le> snd (Pos call)"
    by (simp add: demoCalls_def)
  have w: "fst (loadRows (1 + 1) ?rest) = []" by code_simp
  note t = unparsable_position_never_matches [OF h0, where i = 1 and rest = ?rest and w = demoWorld
      and p = "''a.go''" and c = demoSource and env = demoEnv and node = ?node and ?us1.0 = "[]"
      and ?us2.0 = "snd (loadRows 2 ?rest)" and config = slogLogger and dryRun = False and autoMap = True]
  have a: "fst (loadRows 1 (badRow # ?rest)) = []" using t w by simp
  have b: "Line ?u = 0" using t h1 by blast
  have c: "transformFile demoEnv ''a.go'' ([] @ ?u # snd (loadRows 2 ?rest)) slogLogger False True demoWorld =
     transformFile demoEnv ''a.go'' ([] @ snd (loadRows 2 ?rest)) slogLogger False True demoWorld \<and>
     files (snd (transformFile demoEnv ''a.go'' [?u] slogLogger False True demoWorld)) = files demoWorld"
    using t h1 h2 h3 h4 by blast
  show ?thesis using h0 h1 a b c by simp
qed




text \<open>
  C1 at two calls on one line. One replacement on the content as it was parsed is exact
  (\<open>replace_exact\<close>): the positions of the call are those of its span. But the
  closure replaces in the content that the earlier replacements have already changed,
  at positions of the content as it was parsed. The run over the small project
  rewrites the line
  \<^verbatim>\<open>func f() { log.Println("a"); log.Println("b") }\<close> with the texts it reports,
  \<^verbatim>\<open>log.info("first")\<close> for the columns 12 to 28 and \<^verbatim>\<open>log.info("second")\<close> for the
  columns 30 to 46. The first replacement makes the line one character longer; the
  second is made at the columns of the original line, so it eats the blank before the
  second call and leaves the closing parenthesis of that call behind. The file
  written is not the file with each span replaced.
\<close>

theorem two_calls_on_one_line_are_corrupted:
  \<open>fst (Transform demoEnv id ''logs.csv'' ''.'' False [] True demoWorld) = None \<and>
   stdout (snd (Transform demoEnv id ''logs.csv'' ''.'' False [] True demoWorld)) =
     [''a.go:2:12'' @ [CHR 0x0A] @ ''  Old: log.Println("a")'' @ [CHR 0x0A] @ ''  New: log.info("first")'',
      [],
      ''a.go:2:30'' @ [CHR 0x0A] @ ''  Old: log.Println("b")'' @ [CHR 0x0A] @ ''  New: log.info("second")'',
      [],
      ''Updated: a.go (2 changes)''] \<and>
   files (snd (Transform demoEnv id ''logs.csv'' ''.'' False [] True demoWorld)) ''a.go'' =
     Some (''package p'' @ [CHR 0x0A] @
           ''func f() { log.info("first");log.info("second")) }'' @ [CHR 0x0A]) \<and>
   files (snd (Transform demoEnv id ''logs.csv'' ''.'' False [] True demoWorld)) ''a.go'' \<noteq>
     Some demoExpected\<close>
  by code_simp

text \<open>
  C6 at arguments that are not plain names. Plain candidates are read back as they
  were written (\<open>plain_arguments_round_trip\<close>); the candidates that the collector
  itself makes for index, call and binary expressions are not. For
  \<^verbatim>\<open>log.Printf("item %d of %d", items[i], len(items))\<close> the candidates have the
  expressions \<open>items[...]\<close> and \<open>len()\<close>, the keys \<open>]\<close> and \<open>len()\<close> and the types
  \<open>unknown\<close> and \<open>func_result\<close>; read back from the argument details, the first field
  has the expression \<open>items\<close> and the second the key \<open>len\<close> and an empty type. For
  \<^verbatim>\<open>log.Printf("equal: %v", a == b)\<close> there is one candidate and no field is read back.
\<close>

theorem argument_details_do_not_round_trip:
  "map (\<lambda>a. (argSuggestedKey a, argType a, argExpression a)) (snd (extractLogDetails indexArgs)) =
     [('']'', ''unknown'', ''items[...]''), (''len()'', ''func_result'', ''len()'')] \<and>
   formatArgumentDetails (snd (extractLogDetails indexArgs)) =
     ''](unknown)=items[...][%d]; len()(func_result)=len()[%d]'' \<and>
   map (\<lambda>f. (Key f, Type f, Expression f))
     (autoGenerateFieldsFromArguments (formatArgumentDetails (snd (extractLogDetails indexArgs)))) =
     [('']'', ''unknown'', ''items''), (''len'', [], ''len()'')] \<and>
   length (snd (extractLogDetails equalArgs)) = 1 \<and>
   formatArgumentDetails (snd (extractLogDetails equalArgs)) = ''a == b(unknown)=a == b[%v]'' \<and>
   autoGenerateFieldsFromArguments (formatArgumentDetails (snd (extractLogDetails equalArgs))) = []"
  by code_simp

end
